theory Spec2Isabelle
  imports Main
begin

section \<open>The capability registry of \<open>runtime.ts\<close>\<close>

text \<open>
  The \<open>supports\<close> tree of \<open>IRuntime\<close>: every key holds either \<open>undefined\<close> or an
  object whose own keys are again capabilities. An object is the list of its own
  properties in insertion order; a key that is absent and a key that holds
  \<open>undefined\<close> are different objects.
\<close>

datatype capability = Undefined | Obj "(string \<times> capability) list"

type_synonym supportsTree = "(string \<times> capability) list"

record IRuntime =
  apiVersion :: int
  isLegacyTeams :: "bool option"
  supports :: supportsTree

text \<open>Reading a property: an absent key reads as \<open>undefined\<close>.\<close>

definition getProp :: "supportsTree \<Rightarrow> string \<Rightarrow> capability" where
  "getProp obj key = (case map_of obj key of None \<Rightarrow> Undefined | Some v \<Rightarrow> v)"

text \<open>
  Defining a property on an object under construction: an existing key keeps its
  place and takes the new value, a new key goes to the end.
\<close>

fun assignProp :: "(string \<times> 'v) list \<Rightarrow> string \<times> 'v \<Rightarrow> (string \<times> 'v) list" where
  "assignProp [] (key, v) = [(key, v)]"
| "assignProp ((k, w) # rest) (key, v) =
     (if k = key then (k, v) # rest else (k, w) # assignProp rest (key, v))"

text \<open>
  The object literal \<open>{ ...a, ...b }\<close>: a fresh object that receives the own
  properties of \<open>a\<close> and then those of \<open>b\<close>, one level deep. Both functions are used
  for capability trees here and for objects in a store further down.
\<close>

definition objectSpread :: "(string \<times> 'v) list \<Rightarrow> (string \<times> 'v) list \<Rightarrow> (string \<times> 'v) list" where
  "objectSpread a b = foldl assignProp (foldl assignProp [] a) b"

subsection \<open>The module-level registries\<close>

text \<open>The initial value of \<open>export let runtime\<close>.\<close>

definition runtime :: IRuntime where
  "runtime = \<lparr>
     apiVersion = 1,
     isLegacyTeams = None,
     supports = [
       (''appInstallDialog'', Undefined),
       (''calendar'', Undefined),
       (''call'', Undefined),
       (''chat'', Obj [(''conversation'', Undefined)]),
       (''dialog'', Obj [(''bot'', Undefined), (''update'', Undefined)]),
       (''location'', Undefined),
       (''logs'', Undefined),
       (''mail'', Undefined),
       (''media'', Undefined),
       (''meeting'', Undefined),
       (''meetingRoom'', Undefined),
       (''menus'', Undefined),
       (''monetization'', Undefined),
       (''notifications'', Undefined),
       (''pages'', Obj [
          (''appButton'', Undefined),
          (''tabs'', Undefined),
          (''config'', Undefined),
          (''backStack'', Undefined),
          (''fullTrust'', Undefined)]),
       (''people'', Undefined),
       (''remoteCamera'', Undefined),
       (''sharing'', Undefined),
       (''teams'', Obj [(''fullTrust'', Obj [(''joinedTeams'', Undefined)])]),
       (''teamsCore'', Undefined),
       (''video'', Undefined)]\<rparr>"

definition teamsRuntimeConfig :: IRuntime where
  "teamsRuntimeConfig = \<lparr>
     apiVersion = 1,
     isLegacyTeams = Some True,
     supports = [
       (''appInstallDialog'', Obj []),
       (''appEntity'', Obj []),
       (''call'', Obj []),
       (''chat'', Obj [(''conversation'', Obj [])]),
       (''dialog'', Obj [(''bot'', Obj []), (''update'', Obj [])]),
       (''files'', Obj []),
       (''logs'', Obj []),
       (''media'', Obj []),
       (''meeting'', Obj []),
       (''meetingRoom'', Obj []),
       (''menus'', Obj []),
       (''monetization'', Obj []),
       (''notifications'', Obj []),
       (''pages'', Obj [
          (''appButton'', Obj []),
          (''tabs'', Obj []),
          (''config'', Obj []),
          (''backStack'', Obj []),
          (''fullTrust'', Obj [])]),
       (''remoteCamera'', Obj []),
       (''sharing'', Obj []),
       (''teams'', Obj [(''fullTrust'', Obj [])]),
       (''teamsCore'', Obj []),
       (''video'', Obj [])]\<rparr>"

subsection \<open>Host client types and the version threshold table\<close>

text \<open>
  The enum \<open>HostClientType\<close> is declared in \<open>public/constants\<close>; \<open>runtime.ts\<close> names
  ten of its members. \<open>GlobalVars.hostClientType\<close> is a string that need not be one of
  them, which is the last constructor.
\<close>

datatype HostClientType =
    desktop | web | android | ios | rigel | surfaceHub
  | teamsRoomsWindows | teamsRoomsAndroid | teamsPhones | teamsDisplays
  | otherHostClient string

record ICapabilityReqs =
  capability :: supportsTree
  hostClientTypes :: "HostClientType list"

definition v1HostClientTypes :: "HostClientType list" where
  "v1HostClientTypes =
     [desktop, web, android, ios, rigel, surfaceHub,
      teamsRoomsWindows, teamsRoomsAndroid, teamsPhones, teamsDisplays]"

text \<open>
  \<open>versionConstants\<close>, as the list of its entries in the order of \<open>Object.keys\<close>
  (the keys are not array indices, so this is the order they are written in).
\<close>

definition versionConstants :: "(string \<times> ICapabilityReqs list) list" where
  "versionConstants = [
     (''1.9.0'', [\<lparr>capability = [(''location'', Obj [])],
                   hostClientTypes = v1HostClientTypes\<rparr>]),
     (''2.0.0'', [\<lparr>capability = [(''people'', Obj [])],
                   hostClientTypes = v1HostClientTypes\<rparr>]),
     (''2.0.1'', [\<lparr>capability =
                     [(''teams'', Obj [(''fullTrust'', Obj [(''joinedTeams'', Obj [])])])],
                   hostClientTypes =
                     [android, teamsRoomsAndroid, teamsPhones, teamsDisplays]\<rparr>])]"

subsection \<open>The version comparator\<close>

text \<open>
  Modelled from the spec: \<open>compareSDKVersions\<close> of \<open>internal/utils\<close>, which
  \<open>runtime.ts\<close> imports and which is not among the source files. The spec (4.1): two
  version strings of the form MAJOR.MINOR.PATCH, missing segments default to 0; the
  comparison is numeric per segment, left to right; the first segment with a numeric
  difference decides (negative, positive); all segments equal gives zero. The spec
  defines the result for dotted decimal strings only: on any other string the model
  returns no number, and a comparison of no number with 0 does not hold.
\<close>

fun splitOn :: "char \<Rightarrow> string \<Rightarrow> string list" where
  "splitOn c [] = [ []]"
| "splitOn c (x # xs) =
     (if x = c then [] # splitOn c xs
      else (case splitOn c xs of [] \<Rightarrow> [ [x]] | seg # segs \<Rightarrow> (x # seg) # segs))"

definition isDigit :: "char \<Rightarrow> bool" where
  "isDigit c = (48 \<le> (of_char c :: nat) \<and> (of_char c :: nat) \<le> 57)"

definition isValidPart :: "string \<Rightarrow> bool" where
  "isValidPart s = (s \<noteq> [] \<and> list_all isDigit s)"

definition partNumber :: "string \<Rightarrow> nat" where
  "partNumber s = foldl (\<lambda>n c. 10 * n + ((of_char c :: nat) - 48)) 0 s"

fun compareParts :: "nat list \<Rightarrow> nat list \<Rightarrow> int" where
  "compareParts [] [] = 0"
| "compareParts (x # xs) [] = (if x = 0 then compareParts xs [] else 1)"
| "compareParts [] (y # ys) = (if y = 0 then compareParts [] ys else - 1)"
| "compareParts (x # xs) (y # ys) =
     (if x = y then compareParts xs ys else if x > y then 1 else - 1)"

definition compareSDKVersions :: "string \<Rightarrow> string \<Rightarrow> int option" where
  "compareSDKVersions v1 v2 =
     (let v1parts = splitOn (CHR ''.'') v1; v2parts = splitOn (CHR ''.'') v2
      in if list_all isValidPart v1parts \<and> list_all isValidPart v2parts
         then Some (compareParts (map partNumber v1parts) (map partNumber v2parts))
         else None)"

text \<open>The tests \<open>n >= 0\<close> and \<open>n <= 0\<close> on the comparator's result.\<close>

definition geZero :: "int option \<Rightarrow> bool" where
  "geZero r = (case r of None \<Rightarrow> False | Some n \<Rightarrow> n \<ge> 0)"

definition leZero :: "int option \<Rightarrow> bool" where
  "leZero r = (case r of None \<Rightarrow> False | Some n \<Rightarrow> n \<le> 0)"

subsection \<open>Back-compat synthesis\<close>

text \<open>
  \<open>generateBackCompatRuntimeConfig\<close>. The first argument is the value of
  \<open>GlobalVars.hostClientType\<close> at the call. The two nested \<open>forEach\<close> loops are the two
  folds; \<open>newSupports\<close> is the accumulator. The outer loop runs over \<open>Object.keys\<close> and
  looks each key up again, which is a loop over the entries.
\<close>

definition mergeCapabilityReqs ::
  "HostClientType \<Rightarrow> supportsTree \<Rightarrow> ICapabilityReqs \<Rightarrow> supportsTree" where
  "mergeCapabilityReqs hostClientType newSupports capabilityReqs =
     (if hostClientType \<in> set (hostClientTypes capabilityReqs)
      then objectSpread newSupports (capability capabilityReqs)
      else newSupports)"

definition mergeVersion ::
  "HostClientType \<Rightarrow> string \<Rightarrow> supportsTree \<Rightarrow> string \<times> ICapabilityReqs list \<Rightarrow> supportsTree" where
  "mergeVersion hostClientType highestSupportedVersion newSupports entry =
     (if geZero (compareSDKVersions highestSupportedVersion (fst entry))
      then foldl (mergeCapabilityReqs hostClientType) newSupports (snd entry)
      else newSupports)"

definition generateBackCompatRuntimeConfig :: "HostClientType \<Rightarrow> string \<Rightarrow> IRuntime" where
  "generateBackCompatRuntimeConfig hostClientType highestSupportedVersion =
     (let newSupports = objectSpread [] (supports teamsRuntimeConfig);
          newSupports = foldl (mergeVersion hostClientType highestSupportedVersion)
                          newSupports versionConstants
      in \<lparr>apiVersion = 1, isLegacyTeams = Some True, supports = newSupports\<rparr>)"


subsection \<open>Supported capability paths\<close>

text \<open>
  The data model's reading of the registry (spec, section 3): a capability or
  sub-capability is supported iff every key along its path holds a non-undefined
  object. Paths are non-empty lists of keys.
\<close>

fun supportsPath :: "supportsTree \<Rightarrow> string list \<Rightarrow> bool" where
  "supportsPath obj [] = False"
| "supportsPath obj [key] = (getProp obj key \<noteq> Undefined)"
| "supportsPath obj (key # keys) =
     (case getProp obj key of Undefined \<Rightarrow> False | Obj sub \<Rightarrow> supportsPath sub keys)"

text \<open>
  Modelled from the spec: the \<open>isSupported\<close> functions of \<open>dialog.ts\<close>, which the
  test file calls and which are not among the source files. The spec (section 6):
  a read-only boolean query along a dotted capability path that must not throw and
  returns false for any unknown or unpopulated path. Reading a property of
  \<open>undefined\<close> is a \<open>TypeError\<close> in JavaScript, so the query tests each value before
  it reads below it.
\<close>

datatype jsError = TypeError

definition readProp :: "capability \<Rightarrow> string \<Rightarrow> jsError + capability" where
  "readProp v key = (case v of Undefined \<Rightarrow> Inl TypeError | Obj obj \<Rightarrow> Inr (getProp obj key))"

fun isSupportedFrom :: "capability \<Rightarrow> string list \<Rightarrow> jsError + bool" where
  "isSupportedFrom v [] = Inr (v \<noteq> Undefined)"
| "isSupportedFrom v (key # keys) =
     (if v \<noteq> Undefined
      then (case readProp v key of Inl e \<Rightarrow> Inl e | Inr w \<Rightarrow> isSupportedFrom w keys)
      else Inr False)"

definition isSupported :: "IRuntime \<Rightarrow> string list \<Rightarrow> jsError + bool" where
  "isSupported rt path =
     (case path of [] \<Rightarrow> Inr False
      | key # keys \<Rightarrow>
          (case readProp (Obj (supports rt)) key of Inl e \<Rightarrow> Inl e
           | Inr w \<Rightarrow> isSupportedFrom w keys))"

definition dialog_isSupported :: "IRuntime \<Rightarrow> jsError + bool" where
  "dialog_isSupported rt = isSupported rt [''dialog'']"

definition dialog_update_isSupported :: "IRuntime \<Rightarrow> jsError + bool" where
  "dialog_update_isSupported rt = isSupported rt [''dialog'', ''update'']"

definition dialog_bot_isSupported :: "IRuntime \<Rightarrow> jsError + bool" where
  "dialog_bot_isSupported rt = isSupported rt [''dialog'', ''bot'']"

subsection \<open>The synthesis in the spec's words\<close>

text \<open>
  The fragments the spec (section 4.2) says are merged into the baseline: those of the
  threshold entries whose key the declared version reaches and whose host list
  contains the current host client type, in the table's order.
\<close>

definition qualifyingFragments :: "HostClientType \<Rightarrow> string \<Rightarrow> supportsTree list" where
  "qualifyingFragments H v =
     concat (map (\<lambda>(k, reqs).
        if geZero (compareSDKVersions v k)
        then map capability (filter (\<lambda>r. H \<in> set (hostClientTypes r)) reqs)
        else []) versionConstants)"

text \<open>Auxiliary notions for the proofs: an order on capability values under which
  supported paths are kept, and the eight registries the synthesis can produce.\<close>

fun capLe :: "capability \<Rightarrow> capability \<Rightarrow> bool" where
  "capLe Undefined w = True"
| "capLe (Obj obj) Undefined = False"
| "capLe (Obj obj) (Obj obj') = list_all (\<lambda>(key, v). capLe v (getProp obj' key)) obj"

definition pick :: "bool \<Rightarrow> 'a \<Rightarrow> 'a list" where
  "pick c x = (if c then [x] else [])"

definition synthesized :: "bool \<Rightarrow> bool \<Rightarrow> bool \<Rightarrow> supportsTree" where
  "synthesized c1 c2 c3 =
     foldl objectSpread (supports teamsRuntimeConfig)
       (pick c1 [(''location'', Obj [])] @ pick c2 [(''people'', Obj [])] @
        pick c3 [(''teams'', Obj [(''fullTrust'', Obj [(''joinedTeams'', Obj [])])])])"

section \<open>Capability calls and message correlation\<close>

text \<open>
  The lifecycle and frame-context guard, the capability entry points of \<open>dialog.ts\<close>
  and \<open>location.ts\<close>, and the message correlation of the communication layer are not
  among the source files; the test files call them. Each is modelled from the spec
  (sections 4.4 to 4.6, 6 and 7), with the allow-lists, function names and arguments of
  the entry points taken from the tests.
\<close>

subsection \<open>Values, messages and errors\<close>

datatype jsvalue =
    JUndefined | JNull | JBool bool | JNum int | JStr string
  | JArray "jsvalue list" | JObject "(string \<times> jsvalue) list"

record message =
  msgId :: "nat option"
  func :: string
  args :: "jsvalue list"

datatype lifecycle = Uninitialized | Initializing | Initialized

datatype sdkError =
    LifecycleError string
  | ContextError string
  | NotSupportedOnPlatform
  | InvalidArguments

datatype settlement = Resolved jsvalue | Rejected jsvalue

text \<open>
  The process-wide state: the lifecycle state, the frame context, the published
  registry, and the correlation engine (the next identifier, the identifiers awaiting a
  response, the promises settled so far with their identifiers (latest first), and the
  messages handed to the
  transport in call order).
\<close>

record sdk =
  lifecycleState :: lifecycle
  frameContext :: string
  registry :: IRuntime
  nextMessageId :: nat
  pendingRequests :: "nat list"
  settled :: "(nat \<times> settlement) list"
  outbox :: "message list"

subsection \<open>The text of the context error\<close>

text \<open>
  Modelled from the spec: the message of the context error, which is built by the guard
  that is not among the source files. The spec (4.4) asks for the allow-list and the
  observed context rendered in order; the tests give the text and render both with
  \<open>JSON.stringify\<close>: a string in double quotes, with the quote, the backslash and the
  control characters escaped; an array in brackets, its elements separated by commas.
\<close>

definition hexDigit :: "nat \<Rightarrow> char" where
  "hexDigit n = (if n < 10 then char_of (48 + n) else char_of (87 + n))"

definition escapeChar :: "char \<Rightarrow> string" where
  "escapeChar c =
     (if c = CHR 0x22 then [CHR 0x5C, CHR 0x22]
      else if c = CHR 0x5C then [CHR 0x5C, CHR 0x5C]
      else if c = CHR 0x08 then [CHR 0x5C, CHR ''b'']
      else if c = CHR 0x0C then [CHR 0x5C, CHR ''f'']
      else if c = CHR 0x0A then [CHR 0x5C, CHR ''n'']
      else if c = CHR 0x0D then [CHR 0x5C, CHR ''r'']
      else if c = CHR 0x09 then [CHR 0x5C, CHR ''t'']
      else if (of_char c :: nat) < 32
        then [CHR 0x5C, CHR ''u'', CHR ''0'', CHR ''0'',
              hexDigit ((of_char c :: nat) div 16), hexDigit ((of_char c :: nat) mod 16)]
      else [c])"

definition plainChar :: "char \<Rightarrow> bool" where
  "plainChar c = (c \<noteq> CHR 0x22 \<and> c \<noteq> CHR 0x5C \<and> 32 \<le> (of_char c :: nat))"

definition stringifyString :: "string \<Rightarrow> string" where
  "stringifyString s = CHR 0x22 # concat (map escapeChar s) @ [CHR 0x22]"

fun joinWith :: "string \<Rightarrow> string list \<Rightarrow> string" where
  "joinWith sep [] = []"
| "joinWith sep [x] = x"
| "joinWith sep (x # y # rest) = x @ sep @ joinWith sep (y # rest)"

definition stringifyStrings :: "string list \<Rightarrow> string" where
  "stringifyStrings xs = ''['' @ joinWith '','' (map stringifyString xs) @ '']''"

definition contextErrorMessage :: "string list \<Rightarrow> string \<Rightarrow> string" where
  "contextErrorMessage expected current =
     ''This call is only allowed in following contexts: '' @ stringifyStrings expected @
     ''. Current context: '' @ stringifyString current @ ''.''"

subsection \<open>The guard and the call\<close>

text \<open>
  Modelled from the spec: a capability entry point, as far as the validation order of
  section 4.4 sees it: the frame contexts it allows (none when it is not
  context-restricted), the capability path it needs, its check of the arguments, and the
  message it sends.
\<close>

record entryPoint =
  expectedFrameContexts :: "string list option"
  requiredCapability :: "string list"
  validArguments :: "jsvalue list \<Rightarrow> bool"
  request :: "jsvalue list \<Rightarrow> string \<times> jsvalue list"

text \<open>
  Modelled from the spec: \<open>ensureInitialized\<close>, the guard that every entry point calls
  first and that is not among the source files. Spec 4.6 and 7: a call outside the
  initialized state fails with the lifecycle error, whose message is a fixed literal
  (the tests give it); spec 4.4: after that, a context outside the allow-list fails with
  the context error.
\<close>

definition ensureInitialized :: "sdk \<Rightarrow> string list option \<Rightarrow> sdkError + unit" where
  "ensureInitialized st expected =
     (if lifecycleState st \<noteq> Initialized
      then Inl (LifecycleError ''The library has not yet been initialized'')
      else (case expected of
              None \<Rightarrow> Inr ()
            | Some allowed \<Rightarrow>
                if frameContext st \<in> set allowed then Inr ()
                else Inl (ContextError (contextErrorMessage allowed (frameContext st)))))"

text \<open>
  Modelled from the spec: send-and-await of the communication layer, which is not among
  the source files. Spec 4.5: a fresh identifier, a pending request under it, the tagged
  message to the transport; the identifier stands for the returned promise.
\<close>

definition sendAndAwait :: "sdk \<Rightarrow> string \<times> jsvalue list \<Rightarrow> sdk \<times> nat" where
  "sendAndAwait st req =
     (let i = nextMessageId st
      in (st\<lparr>nextMessageId := i + 1,
             pendingRequests := pendingRequests st @ [i],
             outbox := outbox st @ [\<lparr>msgId = Some i, func = fst req, args = snd req\<rparr>]\<rparr>,
          i))"

text \<open>
  Modelled from the spec: the body that the entry points of \<open>dialog.ts\<close> and
  \<open>location.ts\<close> share, in the validation order of section 4.4: initialized, context
  allowed, capability supported, arguments valid, send.
\<close>

definition invoke :: "entryPoint \<Rightarrow> jsvalue list \<Rightarrow> sdk \<Rightarrow> sdkError + sdk \<times> nat" where
  "invoke e as st =
     (case ensureInitialized st (expectedFrameContexts e) of
        Inl err \<Rightarrow> Inl err
      | Inr u \<Rightarrow>
          if \<not> supportsPath (supports (registry st)) (requiredCapability e)
          then Inl NotSupportedOnPlatform
          else if \<not> validArguments e as then Inl InvalidArguments
          else Inr (sendAndAwait st (request e as)))"

text \<open>
  Modelled from the spec: response dispatch of the communication layer, which is not
  among the source files. Spec 4.5: a response whose identifier is pending removes the
  pending request and settles its promise, by the transport's convention (first
  argument present and non-null: error, else success); any other response is ignored.
\<close>

definition settle :: "jsvalue list \<Rightarrow> settlement" where
  "settle as =
     (case as of
        [] \<Rightarrow> Resolved JUndefined
      | e # rest \<Rightarrow>
          if e \<noteq> JUndefined \<and> e \<noteq> JNull then Rejected e
          else Resolved (case rest of [] \<Rightarrow> JUndefined | v # others \<Rightarrow> v))"

definition handleResponse :: "sdk \<Rightarrow> nat \<times> jsvalue list \<Rightarrow> sdk" where
  "handleResponse st response =
     (if fst response \<in> set (pendingRequests st)
      then st\<lparr>pendingRequests := removeAll (fst response) (pendingRequests st),
              settled := (fst response, settle (snd response)) # settled st\<rparr>
      else st)"

text \<open>The state of the promise returned under an identifier: settled, or still pending
  (\<open>None\<close>).\<close>

definition promiseState :: "sdk \<Rightarrow> nat \<Rightarrow> settlement option" where
  "promiseState st i = map_of (settled st) i"

text \<open>
  Modelled from the spec: what the engine, which is not among the source files, keeps
  true between events. Spec 4.5: identifiers are unique for the lifetime of the current
  initialization; here every identifier in use is below the next one to be allocated.
\<close>

definition wellFormed :: "sdk \<Rightarrow> bool" where
  "wellFormed st =
     (list_all (\<lambda>j. j < nextMessageId st) (pendingRequests st) \<and>
      list_all (\<lambda>entry. fst entry < nextMessageId st) (settled st))"

text \<open>
  What can happen between a request and its response: further calls of entry points, and
  responses of the host, in any order. A call that fails its validation changes nothing.
\<close>

datatype sdkEvent = Call entryPoint "jsvalue list" | Response nat "jsvalue list"

fun responseId :: "sdkEvent \<Rightarrow> nat option" where
  "responseId (Call e as) = None"
| "responseId (Response j as) = Some j"

fun sdkStep :: "sdk \<Rightarrow> sdkEvent \<Rightarrow> sdk" where
  "sdkStep st (Call e as) = (case invoke e as st of Inl err \<Rightarrow> st | Inr sent \<Rightarrow> fst sent)"
| "sdkStep st (Response j as) = handleResponse st (j, as)"

definition runEvents :: "sdk \<Rightarrow> sdkEvent list \<Rightarrow> sdk" where
  "runEvents st evs = foldl sdkStep st evs"

text \<open>Auxiliary notion for the proofs: the request under \<open>i\<close> is still waiting.\<close>

definition awaiting :: "nat \<Rightarrow> sdk \<Rightarrow> bool" where
  "awaiting i st =
     (wellFormed st \<and> i < nextMessageId st \<and> i \<in> set (pendingRequests st) \<and>
      promiseState st i = None)"

subsection \<open>The entry points the tests exercise\<close>

text \<open>
  Modelled from the spec: the members of the enum \<open>FrameContexts\<close> (declared in
  \<open>public/constants\<close>, not among the source files) that the allow-lists of the tests
  name, and the entry points with the allow-list, function name and arguments that the
  tests of each expect. A frame context is a string, which the tests quote in the
  expected message.
\<close>

definition FrameContexts_content :: string where "FrameContexts_content = ''content''"
definition FrameContexts_sidePanel :: string where "FrameContexts_sidePanel = ''sidePanel''"
definition FrameContexts_task :: string where "FrameContexts_task = ''task''"
definition FrameContexts_meetingStage :: string where
  "FrameContexts_meetingStage = ''meetingStage''"
definition FrameContexts_settings :: string where "FrameContexts_settings = ''settings''"

definition firstArgument :: "jsvalue list \<Rightarrow> jsvalue" where
  "firstArgument as = (case as of [] \<Rightarrow> JUndefined | a # rest \<Rightarrow> a)"

definition dialog_open :: entryPoint where
  "dialog_open = \<lparr>
     expectedFrameContexts =
       Some [FrameContexts_content, FrameContexts_sidePanel, FrameContexts_meetingStage],
     requiredCapability = [''dialog''],
     validArguments = (\<lambda>as. True),
     request = (\<lambda>as. (''tasks.startTask'', [firstArgument as]))\<rparr>"

definition dialog_update_resize :: entryPoint where
  "dialog_update_resize = \<lparr>
     expectedFrameContexts =
       Some [FrameContexts_content, FrameContexts_sidePanel, FrameContexts_task,
             FrameContexts_meetingStage],
     requiredCapability = [''dialog'', ''update''],
     validArguments = (\<lambda>as. True),
     request = (\<lambda>as. (''tasks.updateTask'', [firstArgument as]))\<rparr>"

definition dialog_submit :: entryPoint where
  "dialog_submit = \<lparr>
     expectedFrameContexts =
       Some [FrameContexts_content, FrameContexts_sidePanel, FrameContexts_task,
             FrameContexts_meetingStage],
     requiredCapability = [''dialog''],
     validArguments = (\<lambda>as. True),
     request = (\<lambda>as. (''tasks.completeTask'',
       [firstArgument as,
        (case firstArgument (drop 1 as) of JArray ids \<Rightarrow> JArray ids | v \<Rightarrow> JArray [v])]))\<rparr>"

definition dialog_bot_open :: entryPoint where
  "dialog_bot_open = \<lparr>
     expectedFrameContexts =
       Some [FrameContexts_content, FrameContexts_sidePanel, FrameContexts_meetingStage],
     requiredCapability = [''dialog'', ''bot''],
     validArguments = (\<lambda>as. True),
     request = (\<lambda>as. (''tasks.startTask'', [firstArgument as]))\<rparr>"

definition location_getCurrentLocation :: entryPoint where
  "location_getCurrentLocation = \<lparr>
     expectedFrameContexts = Some [FrameContexts_content, FrameContexts_task],
     requiredCapability = [''location''],
     validArguments = (\<lambda>as. True),
     request = (\<lambda>as. (''location.getLocation'',
       [JObject [(''allowChooseLocation'', JBool False), (''showMap'', JBool False)]]))\<rparr>"

text \<open>The argument of \<open>permissions.has\<close> is a constant of \<open>location.ts\<close>; the tests only
  say that there is one, so it is a parameter here.\<close>

definition location_hasPermission :: "jsvalue \<Rightarrow> entryPoint" where
  "location_hasPermission permission = \<lparr>
     expectedFrameContexts = Some [FrameContexts_content, FrameContexts_task],
     requiredCapability = [''location''],
     validArguments = (\<lambda>as. True),
     request = (\<lambda>as. (''permissions.has'', [permission]))\<rparr>"

definition location_map_showLocation :: entryPoint where
  "location_map_showLocation = \<lparr>
     expectedFrameContexts = Some [FrameContexts_content, FrameContexts_task],
     requiredCapability = [''location''],
     validArguments = (\<lambda>as. firstArgument as \<noteq> JUndefined \<and> firstArgument as \<noteq> JNull),
     request = (\<lambda>as. (''location.showLocation'', [firstArgument as]))\<rparr>"

subsection \<open>States of the tests\<close>

text \<open>The state before \<open>app.initialize\<close>, and the two steps the tests take from it:
  \<open>initializeWithContext\<close> and \<open>setRuntimeConfig\<close> of the mock host.\<close>

definition uninitializedSdk :: sdk where
  "uninitializedSdk = \<lparr>lifecycleState = Uninitialized, frameContext = [], registry = runtime,
     nextMessageId = 0, pendingRequests = [], settled = [], outbox = []\<rparr>"

definition initializeWithContext :: "string \<Rightarrow> sdk \<Rightarrow> sdk" where
  "initializeWithContext context st =
     st\<lparr>lifecycleState := Initialized, frameContext := context\<rparr>"

definition setRuntimeConfig :: "IRuntime \<Rightarrow> sdk \<Rightarrow> sdk" where
  "setRuntimeConfig rt st = st\<lparr>registry := rt\<rparr>"

definition locationSdk :: sdk where
  "locationSdk =
     setRuntimeConfig
       \<lparr>apiVersion = 1, isLegacyTeams = None, supports = [(''location'', Obj [])]\<rparr>
       (initializeWithContext FrameContexts_content uninitializedSdk)"

text \<open>The state after \<open>location.getCurrentLocation()\<close> in \<open>locationSdk\<close>, and a run of events
  before its response arrives: two more calls, and the response to the later of them.\<close>

definition sentLocationSdk :: sdk where
  "sentLocationSdk =
     locationSdk\<lparr>nextMessageId := 1, pendingRequests := [0],
       outbox := [\<lparr>msgId = Some 0, func = ''location.getLocation'',
         args = [JObject [(''allowChooseLocation'', JBool False),
                          (''showMap'', JBool False)]]\<rparr>]\<rparr>"

definition eventsBetween :: "sdkEvent list" where
  "eventsBetween =
     [Call location_getCurrentLocation [],
      Call location_map_showLocation [JObject [(''latitude'', JNum 17), (''longitude'', JNum 17)]],
      Response 2 [JUndefined, JBool True]]"

section \<open>Publishing the registry\<close>

text \<open>
  Objects as the program can observe and change them after publication: every object
  carries the flag that \<open>Object.freeze\<close> sets. A registry is a tree of such objects with
  numbers, booleans and \<open>undefined\<close> at its leaves.
\<close>

datatype liveValue =
    LUndefined | LNum int | LBool bool
  | LObject bool "(string \<times> liveValue) list"

fun toLive :: "capability \<Rightarrow> liveValue" where
  "toLive Undefined = LUndefined"
| "toLive (Obj props) = LObject False (map (\<lambda>(key, v). (key, toLive v)) props)"

text \<open>The object that an \<open>IRuntime\<close> literal evaluates to, nothing frozen yet.\<close>

definition runtimeObject :: "IRuntime \<Rightarrow> liveValue" where
  "runtimeObject rt =
     LObject False
       ([(''apiVersion'', LNum (apiVersion rt))] @
        (case isLegacyTeams rt of None \<Rightarrow> [] | Some b \<Rightarrow> [(''isLegacyTeams'', LBool b)]) @
        [(''supports'', toLive (Obj (supports rt)))])"

text \<open>
  Modelled from the spec: \<open>deepFreeze\<close> of \<open>internal/utils\<close>, which \<open>runtime.ts\<close> imports
  and which is not among the source files. The spec (4.3): deeply frozen means every
  object reachable from the root becomes immutable.
\<close>

fun deepFreeze :: "liveValue \<Rightarrow> liveValue" where
  "deepFreeze (LObject isFrozen props) =
     LObject True (map (\<lambda>(key, v). (key, deepFreeze v)) props)"
| "deepFreeze v = v"

text \<open>\<open>applyRuntimeConfig\<close> of \<open>runtime.ts\<close>: the module variable \<open>runtime\<close> takes the value
  of \<open>deepFreeze(runtimeConfig)\<close>.\<close>

record runtimeModule =
  runtimeVar :: liveValue

definition applyRuntimeConfig :: "liveValue \<Rightarrow> runtimeModule \<Rightarrow> runtimeModule" where
  "applyRuntimeConfig runtimeConfig m = m\<lparr>runtimeVar := deepFreeze runtimeConfig\<rparr>"

text \<open>
  What a caller can try on the published registry: the assignment
  \<open>root.p1. ... .pn.key = v\<close>, which reads along the path and then sets \<open>key\<close> on the
  object it arrives at. A frozen object refuses the assignment (silently, or with a
  \<open>TypeError\<close> in strict mode), and so does a value that is not an object; in both cases
  nothing changes. The result is the tree that readers see afterwards.
\<close>

fun assignPath :: "liveValue \<Rightarrow> string list \<Rightarrow> string \<Rightarrow> liveValue \<Rightarrow> liveValue" where
  "assignPath (LObject isFrozen props) [] key v =
     (if isFrozen then LObject isFrozen props
      else LObject isFrozen (assignProp props (key, v)))"
| "assignPath (LObject isFrozen props) (p # ps) key v =
     LObject isFrozen
       (map (\<lambda>(k, w). if k = p then (k, assignPath w ps key v) else (k, w)) props)"
| "assignPath other path key v = other"

text \<open>Every object of the tree is frozen.\<close>

fun allFrozen :: "liveValue \<Rightarrow> bool" where
  "allFrozen (LObject isFrozen props) = (isFrozen \<and> list_all (\<lambda>(key, v). allFrozen v) props)"
| "allFrozen v = True"

text \<open>The tree with every flag cleared: what a reader sees of it.\<close>

fun withoutFlags :: "liveValue \<Rightarrow> liveValue" where
  "withoutFlags (LObject isFrozen props) =
     LObject False (map (\<lambda>(key, v). (key, withoutFlags v)) props)"
| "withoutFlags v = v"

section \<open>The synthesis on a store of objects\<close>

text \<open>
  To speak about what \<open>generateBackCompatRuntimeConfig\<close> writes, objects live in a store:
  an object is a list of properties whose values are primitive or references, an
  address is an index into the store, and creating an object appends it. The baseline
  registry and the capability fragments of the threshold table are objects of the
  store, created when the module is loaded; the synthesized registry shares the nested
  objects of both, as the shallow copies of the source do.
\<close>

datatype storeValue = VUndefined | VNum int | VBool bool | VRef nat

type_synonym storeObject = "(string \<times> storeValue) list"

type_synonym store = "storeObject list"

definition alloc :: "store \<Rightarrow> storeObject \<Rightarrow> store \<times> storeValue" where
  "alloc h obj = (h @ [obj], VRef (length h))"

text \<open>The own properties that a spread or a property read sees behind a value: those of
  the object for a reference, none for a primitive. (The globals of the module are
  references to objects, so the function never reads through a primitive.)\<close>

definition objectAt :: "store \<Rightarrow> storeValue \<Rightarrow> storeObject" where
  "objectAt h v = (case v of VRef a \<Rightarrow> (if a < length h then h ! a else []) | other \<Rightarrow> [])"

definition fieldOf :: "store \<Rightarrow> storeValue \<Rightarrow> string \<Rightarrow> storeValue" where
  "fieldOf h v key = (case map_of (objectAt h v) key of None \<Rightarrow> VUndefined | Some w \<Rightarrow> w)"

subsection \<open>Loading the module\<close>

fun allocCapability :: "capability \<Rightarrow> store \<Rightarrow> store \<times> storeValue"
  and allocProps :: "(string \<times> capability) list \<Rightarrow> store \<Rightarrow> store \<times> storeObject" where
  "allocCapability Undefined h = (h, VUndefined)"
| "allocCapability (Obj props) h =
     (case allocProps props h of (h', stored) \<Rightarrow> alloc h' stored)"
| "allocProps [] h = (h, [])"
| "allocProps ((key, v) # rest) h =
     (case allocCapability v h of
        (h1, r) \<Rightarrow> (case allocProps rest h1 of (h2, stored) \<Rightarrow> (h2, (key, r) # stored)))"

definition allocRuntime :: "IRuntime \<Rightarrow> store \<Rightarrow> store \<times> storeValue" where
  "allocRuntime rt h =
     (case allocCapability (Obj (supports rt)) h of
        (h1, s) \<Rightarrow>
          alloc h1
            ([(''apiVersion'', VNum (apiVersion rt))] @
             (case isLegacyTeams rt of None \<Rightarrow> [] | Some b \<Rightarrow> [(''isLegacyTeams'', VBool b)]) @
             [(''supports'', s)]))"

text \<open>A threshold entry whose capability fragment is an object of the store.\<close>

record storedCapabilityReqs =
  capabilityRef :: storeValue
  hostClientTypesOf :: "HostClientType list"

fun allocReqs :: "ICapabilityReqs list \<Rightarrow> store \<Rightarrow> store \<times> storedCapabilityReqs list" where
  "allocReqs [] h = (h, [])"
| "allocReqs (r # rest) h =
     (case allocCapability (Obj (capability r)) h of
        (h1, c) \<Rightarrow>
          (case allocReqs rest h1 of
             (h2, rs) \<Rightarrow>
               (h2, \<lparr>capabilityRef = c, hostClientTypesOf = hostClientTypes r\<rparr> # rs)))"

fun allocTable ::
  "(string \<times> ICapabilityReqs list) list \<Rightarrow> store \<Rightarrow>
   store \<times> (string \<times> storedCapabilityReqs list) list" where
  "allocTable [] h = (h, [])"
| "allocTable ((versionNumber, reqs) # rest) h =
     (case allocReqs reqs h of
        (h1, rs) \<Rightarrow>
          (case allocTable rest h1 of (h2, table) \<Rightarrow> (h2, (versionNumber, rs) # table)))"

record moduleGlobals =
  runtimeRef :: storeValue
  teamsRuntimeConfigRef :: storeValue
  versionConstantsRefs :: "(string \<times> storedCapabilityReqs list) list"

definition loadModule :: "store \<times> moduleGlobals" where
  "loadModule =
     (case allocRuntime runtime [] of
        (h1, r) \<Rightarrow>
          (case allocRuntime teamsRuntimeConfig h1 of
             (h2, t) \<Rightarrow>
               (case allocTable versionConstants h2 of
                  (h3, table) \<Rightarrow>
                    (h3, \<lparr>runtimeRef = r, teamsRuntimeConfigRef = t,
                          versionConstantsRefs = table\<rparr>))))"

subsection \<open>\<open>generateBackCompatRuntimeConfig\<close> on the store\<close>

text \<open>
  The same function as above, statement by statement, with every object literal an
  allocation. The state of the loops is the store together with the value of
  \<open>newSupports\<close>.
\<close>

definition mergeCapabilityReqsStore ::
  "HostClientType \<Rightarrow> store \<times> storeValue \<Rightarrow> storedCapabilityReqs \<Rightarrow> store \<times> storeValue" where
  "mergeCapabilityReqsStore hostClientType st capabilityReqs =
     (if hostClientType \<in> set (hostClientTypesOf capabilityReqs)
      then alloc (fst st)
             (objectSpread (objectAt (fst st) (snd st))
                (objectAt (fst st) (capabilityRef capabilityReqs)))
      else st)"

definition mergeVersionStore ::
  "HostClientType \<Rightarrow> string \<Rightarrow> store \<times> storeValue \<Rightarrow>
   string \<times> storedCapabilityReqs list \<Rightarrow> store \<times> storeValue" where
  "mergeVersionStore hostClientType highestSupportedVersion st entry =
     (if geZero (compareSDKVersions highestSupportedVersion (fst entry))
      then foldl (mergeCapabilityReqsStore hostClientType) st (snd entry)
      else st)"

definition generateBackCompatRuntimeConfigStore ::
  "moduleGlobals \<Rightarrow> HostClientType \<Rightarrow> string \<Rightarrow> store \<Rightarrow> store \<times> storeValue" where
  "generateBackCompatRuntimeConfigStore g hostClientType highestSupportedVersion h =
     (let st0 = alloc h (objectSpread []
                  (objectAt h (fieldOf h (teamsRuntimeConfigRef g) ''supports'')));
          st1 = foldl (mergeVersionStore hostClientType highestSupportedVersion)
                  st0 (versionConstantsRefs g)
      in alloc (fst st1)
           [(''apiVersion'', VNum 1), (''isLegacyTeams'', VBool True),
            (''supports'', snd st1)])"

subsection \<open>Reading a registry back from the store\<close>

text \<open>The tree behind a value, to a bounded depth; \<open>None\<close> when the depth does not
  suffice or the value is not a capability tree.\<close>

fun readCapability :: "nat \<Rightarrow> store \<Rightarrow> storeValue \<Rightarrow> capability option"
  and readProps :: "nat \<Rightarrow> store \<Rightarrow> storeObject \<Rightarrow> (string \<times> capability) list option" where
  "readCapability 0 h v = None"
| "readCapability (Suc n) h VUndefined = Some Undefined"
| "readCapability (Suc n) h (VRef a) =
     (if a < length h then map_option Obj (readProps n h (h ! a)) else None)"
| "readCapability (Suc n) h (VNum i) = None"
| "readCapability (Suc n) h (VBool b) = None"
| "readProps n h [] = Some []"
| "readProps n h ((key, v) # rest) =
     (case readCapability n h v of
        None \<Rightarrow> None
      | Some c \<Rightarrow>
          (case readProps n h rest of None \<Rightarrow> None | Some cs \<Rightarrow> Some ((key, c) # cs)))"

definition readRuntime :: "nat \<Rightarrow> store \<Rightarrow> storeValue \<Rightarrow> IRuntime option" where
  "readRuntime n h v =
     (case (fieldOf h v ''apiVersion'', readCapability n h (fieldOf h v ''supports'')) of
        (VNum a, Some (Obj tree)) \<Rightarrow>
          Some \<lparr>apiVersion = a,
                isLegacyTeams =
                  (case fieldOf h v ''isLegacyTeams'' of VBool b \<Rightarrow> Some b | other \<Rightarrow> None),
                supports = tree\<rparr>
      | other \<Rightarrow> None)"

definition readReqs :: "nat \<Rightarrow> store \<Rightarrow> storedCapabilityReqs \<Rightarrow> ICapabilityReqs option" where
  "readReqs n h r =
     (case readCapability n h (capabilityRef r) of
        Some (Obj tree) \<Rightarrow> Some \<lparr>capability = tree, hostClientTypes = hostClientTypesOf r\<rparr>
      | other \<Rightarrow> None)"

definition readTable ::
  "nat \<Rightarrow> store \<Rightarrow> (string \<times> storedCapabilityReqs list) list \<Rightarrow>
   (string \<times> ICapabilityReqs option list) list" where
  "readTable n h table =
     map (\<lambda>entry. (fst entry, map (readReqs n h) (snd entry))) table"

text \<open>What \<open>readTable\<close> gives when every fragment of a table is in the store.\<close>

definition tableRead ::
  "(string \<times> ICapabilityReqs list) list \<Rightarrow> (string \<times> ICapabilityReqs option list) list" where
  "tableRead table = map (\<lambda>entry. (fst entry, map Some (snd entry))) table"

section \<open>Properties of the version comparator\<close>

lemma compareParts_Nil_right_ge: "0 \<le> compareParts xs []"
  by (induction xs) auto

lemma compareParts_Nil_left_ge: "0 \<le> compareParts [] ys \<longleftrightarrow> (\<forall>y\<in>set ys. y = 0)"
  by (induction ys) auto

lemma compareParts_zeros_right: "\<forall>y\<in>set ys. y = 0 \<Longrightarrow> 0 \<le> compareParts xs ys"
  by (induction xs ys rule: compareParts.induct) (auto simp: compareParts_Nil_right_ge)

lemma compareParts_trans:
  "compareParts a b \<le> 0 \<Longrightarrow> 0 \<le> compareParts a c \<Longrightarrow> 0 \<le> compareParts b c"
proof (induction a b arbitrary: c rule: compareParts.induct)
  case 1
  then show ?case by simp
next
  case (2 x xs)
  then show ?case by (cases c) (auto split: if_splits simp: compareParts_Nil_right_ge)
next
  case (3 y ys)
  then show ?case
    by (simp add: compareParts_Nil_left_ge compareParts_zeros_right)
next
  case (4 x xs y ys)
  show ?case
  proof (cases c)
    case Nil
    then show ?thesis by (simp add: compareParts_Nil_right_ge)
  next
    case (Cons z zs)
    with 4 show ?thesis
      by (auto split: if_splits)
  qed
qed

lemma compareSDKVersions_trans:
  assumes "leZero (compareSDKVersions v1 v2)" and "geZero (compareSDKVersions v1 k)"
  shows "geZero (compareSDKVersions v2 k)"
  using assms compareParts_trans
  by (auto simp: compareSDKVersions_def leZero_def geZero_def Let_def split: if_splits)

lemma cmp_190_190: "compareSDKVersions ''1.9.0'' ''1.9.0'' = Some 0" by code_simp
lemma cmp_190_200: "compareSDKVersions ''1.9.0'' ''2.0.0'' = Some (- 1)" by code_simp
lemma cmp_190_201: "compareSDKVersions ''1.9.0'' ''2.0.1'' = Some (- 1)" by code_simp
lemma cmp_200_190: "compareSDKVersions ''2.0.0'' ''1.9.0'' = Some 1" by code_simp
lemma cmp_200_200: "compareSDKVersions ''2.0.0'' ''2.0.0'' = Some 0" by code_simp
lemma cmp_200_201: "compareSDKVersions ''2.0.0'' ''2.0.1'' = Some (- 1)" by code_simp
lemma cmp_150_190: "compareSDKVersions ''1.5.0'' ''1.9.0'' = Some (- 1)" by code_simp
lemma cmp_150_200: "compareSDKVersions ''1.5.0'' ''2.0.0'' = Some (- 1)" by code_simp
lemma cmp_150_201: "compareSDKVersions ''1.5.0'' ''2.0.1'' = Some (- 1)" by code_simp

lemmas cmp_facts = cmp_190_190 cmp_190_200 cmp_190_201 cmp_200_190 cmp_200_200 cmp_200_201
  cmp_150_190 cmp_150_200 cmp_150_201

section \<open>Back-compat synthesis\<close>

lemma foldl_mergeCapabilityReqs:
  "foldl (mergeCapabilityReqs H) s reqs =
   foldl objectSpread s (map capability (filter (\<lambda>r. H \<in> set (hostClientTypes r)) reqs))"
  by (induction reqs arbitrary: s) (simp_all add: mergeCapabilityReqs_def)

lemma foldl_mergeVersion:
  "foldl (mergeVersion H v) s table =
   foldl objectSpread s (concat (map (\<lambda>(k, reqs).
        if geZero (compareSDKVersions v k)
        then map capability (filter (\<lambda>r. H \<in> set (hostClientTypes r)) reqs)
        else []) table))"
  by (induction table arbitrary: s)
     (simp_all add: mergeVersion_def foldl_mergeCapabilityReqs split_beta)

lemma baseline_copy:
  "objectSpread [] (supports teamsRuntimeConfig) = supports teamsRuntimeConfig"
  by (simp add: objectSpread_def teamsRuntimeConfig_def)

lemma supports_generateBackCompatRuntimeConfig:
  "supports (generateBackCompatRuntimeConfig H v) =
   foldl objectSpread (supports teamsRuntimeConfig) (qualifyingFragments H v)"
  by (simp add: generateBackCompatRuntimeConfig_def Let_def baseline_copy foldl_mergeVersion
        qualifyingFragments_def)

lemma qualifyingFragments_190:
  "H \<in> set v1HostClientTypes \<Longrightarrow>
   qualifyingFragments H ''1.9.0'' = [ [(''location'', Obj [])]]"
  by (simp add: qualifyingFragments_def versionConstants_def cmp_facts geZero_def)

lemma qualifyingFragments_200:
  "H \<in> set v1HostClientTypes \<Longrightarrow>
   qualifyingFragments H ''2.0.0'' = [ [(''location'', Obj [])], [(''people'', Obj [])]]"
  by (simp add: qualifyingFragments_def versionConstants_def cmp_facts geZero_def)

lemma qualifyingFragments_150: "qualifyingFragments H ''1.5.0'' = []"
  by (simp add: qualifyingFragments_def versionConstants_def cmp_facts geZero_def)

lemma supports_190:
  "H \<in> set v1HostClientTypes \<Longrightarrow>
   supportsPath (supports (generateBackCompatRuntimeConfig H ''1.9.0'')) [''location''] \<and>
   \<not> supportsPath (supports (generateBackCompatRuntimeConfig H ''1.9.0'')) [''people'']"
  by (simp add: supports_generateBackCompatRuntimeConfig qualifyingFragments_190
        teamsRuntimeConfig_def objectSpread_def getProp_def)

lemma supports_200:
  "H \<in> set v1HostClientTypes \<Longrightarrow>
   supportsPath (supports (generateBackCompatRuntimeConfig H ''2.0.0'')) [''location''] \<and>
   supportsPath (supports (generateBackCompatRuntimeConfig H ''2.0.0'')) [''people'']"
  by (simp add: supports_generateBackCompatRuntimeConfig qualifyingFragments_200
        teamsRuntimeConfig_def objectSpread_def getProp_def)

lemma supports_150:
  "\<not> supportsPath (supports (generateBackCompatRuntimeConfig H ''1.5.0'')) [''location''] \<and>
   \<not> supportsPath (supports (generateBackCompatRuntimeConfig H ''1.5.0'')) [''people'']"
  by (simp add: supports_generateBackCompatRuntimeConfig qualifyingFragments_150
        teamsRuntimeConfig_def objectSpread_def getProp_def)

text \<open>
  C1. For every declared version \<open>v\<close> and host client type \<open>H\<close>, the synthesized
  registry has \<open>apiVersion\<close> 1, is tagged legacy, and its \<open>supports\<close> tree is the
  baseline's merged with exactly the fragments of the threshold entries that \<open>v\<close>
  reaches and whose host list contains \<open>H\<close>. For \<open>H\<close> among \<open>v1HostClientTypes\<close>:
  \<open>1.9.0\<close> gives location and not people, \<open>2.0.0\<close> gives both, \<open>1.5.0\<close> neither.
\<close>

theorem generateBackCompatRuntimeConfig_thresholds:
  "apiVersion (generateBackCompatRuntimeConfig H v) = 1 \<and>
   isLegacyTeams (generateBackCompatRuntimeConfig H v) = Some True \<and>
   supports (generateBackCompatRuntimeConfig H v) =
     foldl objectSpread (supports teamsRuntimeConfig) (qualifyingFragments H v) \<and>
   (H \<in> set v1HostClientTypes \<longrightarrow>
      supportsPath (supports (generateBackCompatRuntimeConfig H ''1.9.0'')) [''location''] \<and>
      \<not> supportsPath (supports (generateBackCompatRuntimeConfig H ''1.9.0'')) [''people''] \<and>
      supportsPath (supports (generateBackCompatRuntimeConfig H ''2.0.0'')) [''location''] \<and>
      supportsPath (supports (generateBackCompatRuntimeConfig H ''2.0.0'')) [''people''] \<and>
      \<not> supportsPath (supports (generateBackCompatRuntimeConfig H ''1.5.0'')) [''location''] \<and>
      \<not> supportsPath (supports (generateBackCompatRuntimeConfig H ''1.5.0'')) [''people''])"
proof -
  have "apiVersion (generateBackCompatRuntimeConfig H v) = 1"
    and "isLegacyTeams (generateBackCompatRuntimeConfig H v) = Some True"
    by (simp_all add: generateBackCompatRuntimeConfig_def Let_def)
  then show ?thesis
    using supports_generateBackCompatRuntimeConfig [of H v]
      supports_190 [of H] supports_200 [of H] supports_150 [of H]
    by blast
qed

theorem generateBackCompatRuntimeConfig_thresholds_witness:
  "web \<in> set v1HostClientTypes \<and>
   supports (generateBackCompatRuntimeConfig web ''2.0.0'') =
     foldl objectSpread (supports teamsRuntimeConfig)
       [ [(''location'', Obj [])], [(''people'', Obj [])]] \<and>
   supportsPath (supports (generateBackCompatRuntimeConfig web ''1.9.0'')) [''location''] \<and>
   \<not> supportsPath (supports (generateBackCompatRuntimeConfig web ''1.9.0'')) [''people''] \<and>
   supportsPath (supports (generateBackCompatRuntimeConfig web ''2.0.0'')) [''location''] \<and>
   supportsPath (supports (generateBackCompatRuntimeConfig web ''2.0.0'')) [''people''] \<and>
   \<not> supportsPath (supports (generateBackCompatRuntimeConfig web ''1.5.0'')) [''location''] \<and>
   \<not> supportsPath (supports (generateBackCompatRuntimeConfig web ''1.5.0'')) [''people'']"
proof -
  have h: "web \<in> set v1HostClientTypes" by (simp add: v1HostClientTypes_def)
  show ?thesis
    unfolding qualifyingFragments_200 [OF h, symmetric]
    using h generateBackCompatRuntimeConfig_thresholds [of web "''2.0.0''"]
    by blast
qed

subsection \<open>Monotonicity and the uncovered host\<close>

lemma getProp_defined:
  "getProp obj key \<noteq> Undefined \<Longrightarrow> (key, getProp obj key) \<in> set obj"
  by (auto simp: getProp_def split: option.splits dest: map_of_SomeD)

lemma capLe_step:
  assumes "capLe (Obj obj) (Obj obj')" and "getProp obj key \<noteq> Undefined"
  shows "capLe (getProp obj key) (getProp obj' key)"
  using assms getProp_defined [of obj key] by (auto simp: list_all_iff)

lemma capLe_defined: "capLe v w \<Longrightarrow> v \<noteq> Undefined \<Longrightarrow> w \<noteq> Undefined"
  by (cases v; cases w) auto

lemma capLe_supportsPath:
  "capLe (Obj obj) (Obj obj') \<Longrightarrow> supportsPath obj p \<Longrightarrow> supportsPath obj' p"
proof (induction obj p arbitrary: obj' rule: supportsPath.induct)
  case (1 obj)
  then show ?case by simp
next
  case (2 obj key)
  from "2.prems" have "getProp obj key \<noteq> Undefined" by simp
  with "2.prems"(1) have "getProp obj' key \<noteq> Undefined"
    using capLe_step [of obj obj' key] capLe_defined by blast
  then show ?case by simp
next
  case (3 obj key k ks)
  from "3.prems"(2) obtain sub where sub: "getProp obj key = Obj sub" "supportsPath sub (k # ks)"
    by (auto split: capability.splits)
  with "3.prems"(1) have le: "capLe (Obj sub) (getProp obj' key)"
    using capLe_step [of obj obj' key] by simp
  then obtain sub' where sub': "getProp obj' key = Obj sub'"
    by (cases "getProp obj' key") auto
  with le sub "3.IH" have "supportsPath sub' (k # ks)" by simp
  with sub' show ?case by simp
qed

lemma entry_pick:
  "(if b then map capability (filter P [r]) else []) = pick (b \<and> P r) (capability r)"
  by (simp add: pick_def)

lemma qualifyingFragments_pick:
  "qualifyingFragments H v =
     pick (geZero (compareSDKVersions v ''1.9.0'') \<and> H \<in> set v1HostClientTypes)
       [(''location'', Obj [])] @
     pick (geZero (compareSDKVersions v ''2.0.0'') \<and> H \<in> set v1HostClientTypes)
       [(''people'', Obj [])] @
     pick (geZero (compareSDKVersions v ''2.0.1'') \<and>
           H \<in> set [android, teamsRoomsAndroid, teamsPhones, teamsDisplays])
       [(''teams'', Obj [(''fullTrust'', Obj [(''joinedTeams'', Obj [])])])]"
  unfolding qualifyingFragments_def versionConstants_def
  by (simp only: list.map concat.simps prod.case entry_pick append_Nil2
        ICapabilityReqs.select_convs)

lemma supports_synthesized:
  "supports (generateBackCompatRuntimeConfig H v) =
   synthesized
     (geZero (compareSDKVersions v ''1.9.0'') \<and> H \<in> set v1HostClientTypes)
     (geZero (compareSDKVersions v ''2.0.0'') \<and> H \<in> set v1HostClientTypes)
     (geZero (compareSDKVersions v ''2.0.1'') \<and>
        H \<in> set [android, teamsRoomsAndroid, teamsPhones, teamsDisplays])"
  unfolding supports_generateBackCompatRuntimeConfig qualifyingFragments_pick synthesized_def ..

lemma synthesized_step1:
  "\<forall>c2 c3. capLe (Obj (synthesized False c2 c3)) (Obj (synthesized True c2 c3))"
  by code_simp

lemma synthesized_step2:
  "\<forall>c1 c3. capLe (Obj (synthesized c1 False c3)) (Obj (synthesized c1 True c3))"
  by code_simp

lemma synthesized_step3:
  "\<forall>c1 c2. capLe (Obj (synthesized c1 c2 False)) (Obj (synthesized c1 c2 True))"
  by code_simp

lemma synthesized_mono1:
  assumes "c1 \<longrightarrow> d1" and "supportsPath (synthesized c1 c2 c3) p"
  shows "supportsPath (synthesized d1 c2 c3) p"
proof (cases "c1 = d1")
  case True
  with assms(2) show ?thesis by simp
next
  case False
  with assms(1) have c: "\<not> c1" "d1" by auto
  from assms(2) c have "supportsPath (synthesized False c2 c3) p" by simp
  then have "supportsPath (synthesized True c2 c3) p"
    by (rule capLe_supportsPath [OF synthesized_step1 [rule_format]])
  with c show ?thesis by simp
qed

lemma synthesized_mono2:
  assumes "c2 \<longrightarrow> d2" and "supportsPath (synthesized c1 c2 c3) p"
  shows "supportsPath (synthesized c1 d2 c3) p"
proof (cases "c2 = d2")
  case True
  with assms(2) show ?thesis by simp
next
  case False
  with assms(1) have c: "\<not> c2" "d2" by auto
  from assms(2) c have "supportsPath (synthesized c1 False c3) p" by simp
  then have "supportsPath (synthesized c1 True c3) p"
    by (rule capLe_supportsPath [OF synthesized_step2 [rule_format]])
  with c show ?thesis by simp
qed

lemma synthesized_mono3:
  assumes "c3 \<longrightarrow> d3" and "supportsPath (synthesized c1 c2 c3) p"
  shows "supportsPath (synthesized c1 c2 d3) p"
proof (cases "c3 = d3")
  case True
  with assms(2) show ?thesis by simp
next
  case False
  with assms(1) have c: "\<not> c3" "d3" by auto
  from assms(2) c have "supportsPath (synthesized c1 c2 False) p" by simp
  then have "supportsPath (synthesized c1 c2 True) p"
    by (rule capLe_supportsPath [OF synthesized_step3 [rule_format]])
  with c show ?thesis by simp
qed

lemma synthesized_mono:
  assumes "c1 \<longrightarrow> d1" "c2 \<longrightarrow> d2" "c3 \<longrightarrow> d3" and "supportsPath (synthesized c1 c2 c3) p"
  shows "supportsPath (synthesized d1 d2 d3) p"
proof -
  have a: "supportsPath (synthesized d1 c2 c3) p"
    by (rule synthesized_mono1 [OF assms(1) assms(4)])
  have b: "supportsPath (synthesized d1 d2 c3) p"
    by (rule synthesized_mono2 [OF assms(2) a])
  show ?thesis
    by (rule synthesized_mono3 [OF assms(3) b])
qed

text \<open>
  C3. Synthesis is monotone in the declared version: when \<open>compareSDKVersions v1 v2\<close>
  is at most 0, every capability path that the registry synthesized for \<open>v1\<close> supports
  is supported by the one synthesized for \<open>v2\<close>, for every host client type.
\<close>

theorem generateBackCompatRuntimeConfig_monotone:
  assumes "leZero (compareSDKVersions v1 v2)"
    and "supportsPath (supports (generateBackCompatRuntimeConfig H v1)) p"
  shows "supportsPath (supports (generateBackCompatRuntimeConfig H v2)) p"
proof -
  note reach = compareSDKVersions_trans [OF assms(1)]
  show ?thesis
    unfolding supports_synthesized
  proof (rule synthesized_mono [rotated 3, OF assms(2) [unfolded supports_synthesized]])
    show "geZero (compareSDKVersions v1 ''1.9.0'') \<and> H \<in> set v1HostClientTypes \<longrightarrow>
          geZero (compareSDKVersions v2 ''1.9.0'') \<and> H \<in> set v1HostClientTypes"
      using reach by blast
    show "geZero (compareSDKVersions v1 ''2.0.0'') \<and> H \<in> set v1HostClientTypes \<longrightarrow>
          geZero (compareSDKVersions v2 ''2.0.0'') \<and> H \<in> set v1HostClientTypes"
      using reach by blast
    show "geZero (compareSDKVersions v1 ''2.0.1'') \<and>
            H \<in> set [android, teamsRoomsAndroid, teamsPhones, teamsDisplays] \<longrightarrow>
          geZero (compareSDKVersions v2 ''2.0.1'') \<and>
            H \<in> set [android, teamsRoomsAndroid, teamsPhones, teamsDisplays]"
      using reach by blast
  qed
qed

theorem generateBackCompatRuntimeConfig_monotone_witness:
  "leZero (compareSDKVersions ''1.9.0'' ''2.0.1'') \<and>
   supportsPath (supports (generateBackCompatRuntimeConfig android ''1.9.0'')) [''location''] \<and>
   supportsPath (supports (generateBackCompatRuntimeConfig android ''2.0.1'')) [''location'']"
proof -
  have h1: "leZero (compareSDKVersions ''1.9.0'' ''2.0.1'')"
    by (simp add: cmp_facts leZero_def)
  have "android \<in> set v1HostClientTypes" by (simp add: v1HostClientTypes_def)
  then have h2: "supportsPath (supports (generateBackCompatRuntimeConfig android ''1.9.0'')) [''location'']"
    using supports_190 by blast
  from generateBackCompatRuntimeConfig_monotone [OF h1 h2] h1 h2 show ?thesis by blast
qed

text \<open>
  C4. A host client type that no threshold entry lists gains nothing: for every
  declared version the synthesized \<open>supports\<close> tree equals the baseline's.
\<close>

theorem generateBackCompatRuntimeConfig_uncovered_host:
  assumes "list_all (\<lambda>entry. list_all (\<lambda>capabilityReqs.
             H \<notin> set (hostClientTypes capabilityReqs)) (snd entry)) versionConstants"
  shows "supports (generateBackCompatRuntimeConfig H v) = supports teamsRuntimeConfig"
  using assms
  by (simp add: supports_generateBackCompatRuntimeConfig qualifyingFragments_def versionConstants_def)

theorem generateBackCompatRuntimeConfig_uncovered_host_witness:
  "list_all (\<lambda>entry. list_all (\<lambda>capabilityReqs.
      otherHostClient ''ipados'' \<notin> set (hostClientTypes capabilityReqs)) (snd entry)) versionConstants \<and>
   supports (generateBackCompatRuntimeConfig (otherHostClient ''ipados'') ''99.0.0'') = supports teamsRuntimeConfig"
proof -
  have h: "list_all (\<lambda>entry. list_all (\<lambda>capabilityReqs.
      otherHostClient ''ipados'' \<notin> set (hostClientTypes capabilityReqs)) (snd entry)) versionConstants"
    by (simp add: versionConstants_def v1HostClientTypes_def)
  from generateBackCompatRuntimeConfig_uncovered_host [OF h] h show ?thesis by blast
qed

section \<open>The is-supported query\<close>

lemma isSupportedFrom_Undefined: "isSupportedFrom Undefined keys = Inr False"
  by (cases keys) simp_all

lemma isSupportedFrom_Obj:
  "isSupportedFrom (Obj obj) keys = Inr (keys = [] \<or> supportsPath obj keys)"
proof (induction obj keys rule: supportsPath.induct)
  case (1 obj)
  then show ?case by simp
next
  case (2 obj key)
  then show ?case by (simp add: readProp_def)
next
  case (3 obj key k ks)
  then show ?case
    by (cases "getProp obj key") (simp_all add: readProp_def isSupportedFrom_Undefined)
qed

lemma isSupported_supportsPath:
  "isSupported rt path = Inr (supportsPath (supports rt) path)"
proof (cases path)
  case Nil
  then show ?thesis by (simp add: isSupported_def)
next
  case (Cons key keys)
  then show ?thesis
    by (cases "getProp (supports rt) key"; cases keys)
       (simp_all add: isSupported_def readProp_def isSupportedFrom_Obj)
qed

lemma dialog_isSupported_eq:
  "dialog_isSupported rt = Inr (getProp (supports rt) ''dialog'' \<noteq> Undefined)"
  by (simp add: dialog_isSupported_def isSupported_supportsPath)

lemma dialog_update_isSupported_eq:
  "dialog_update_isSupported rt =
     Inr (case getProp (supports rt) ''dialog'' of Undefined \<Rightarrow> False
          | Obj d \<Rightarrow> getProp d ''update'' \<noteq> Undefined)"
  by (simp add: dialog_update_isSupported_def isSupported_supportsPath split: capability.splits)

text \<open>
  C2. The query never throws and answers true exactly when every key on the path holds a
  non-undefined object. \<open>dialog.isSupported\<close> is false when \<open>supports.dialog\<close> is absent or
  \<open>undefined\<close> and true when it is any object; \<open>dialog.update.isSupported\<close> is false when
  \<open>supports.dialog\<close> is absent, \<open>undefined\<close> or \<open>{}\<close>, and true when
  \<open>supports.dialog.update\<close> is an object.
\<close>

theorem isSupported_iff_object:
  "isSupported rt path = Inr (supportsPath (supports rt) path) \<and>
   (map_of (supports rt) ''dialog'' = None \<or> map_of (supports rt) ''dialog'' = Some Undefined \<longrightarrow>
      dialog_isSupported rt = Inr False \<and> dialog_update_isSupported rt = Inr False) \<and>
   (map_of (supports rt) ''dialog'' = Some (Obj d) \<longrightarrow> dialog_isSupported rt = Inr True) \<and>
   (map_of (supports rt) ''dialog'' = Some (Obj []) \<longrightarrow>
      dialog_update_isSupported rt = Inr False) \<and>
   (map_of (supports rt) ''dialog'' = Some (Obj d) \<and> map_of d ''update'' = Some (Obj u) \<longrightarrow>
      dialog_update_isSupported rt = Inr True)"
  by (auto simp: isSupported_supportsPath dialog_isSupported_eq dialog_update_isSupported_eq
        getProp_def)

theorem isSupported_iff_object_witness:
  "dialog_isSupported \<lparr>apiVersion = 1, isLegacyTeams = None, supports = []\<rparr> = Inr False \<and>
   dialog_update_isSupported \<lparr>apiVersion = 1, isLegacyTeams = None, supports = []\<rparr> = Inr False \<and>
   dialog_isSupported
     \<lparr>apiVersion = 1, isLegacyTeams = None, supports = [(''dialog'', Obj [])]\<rparr> = Inr True \<and>
   dialog_update_isSupported
     \<lparr>apiVersion = 1, isLegacyTeams = None, supports = [(''dialog'', Obj [])]\<rparr> = Inr False \<and>
   dialog_isSupported
     \<lparr>apiVersion = 1, isLegacyTeams = None,
      supports = [(''dialog'', Obj [(''update'', Obj [])])]\<rparr> = Inr True \<and>
   dialog_update_isSupported
     \<lparr>apiVersion = 1, isLegacyTeams = None,
      supports = [(''dialog'', Obj [(''update'', Obj [])])]\<rparr> = Inr True"
  using
    isSupported_iff_object [of "\<lparr>apiVersion = 1, isLegacyTeams = None, supports = []\<rparr>"
      "[]" "[]" "[]"]
    isSupported_iff_object [of
      "\<lparr>apiVersion = 1, isLegacyTeams = None, supports = [(''dialog'', Obj [])]\<rparr>"
      "[]" "[]" "[]"]
    isSupported_iff_object [of
      "\<lparr>apiVersion = 1, isLegacyTeams = None,
        supports = [(''dialog'', Obj [(''update'', Obj [])])]\<rparr>"
      "[]" "[(''update'', Obj [])]" "[]"]
  by simp

section \<open>The initial registry\<close>

lemma runtime_top:
  "getProp (supports runtime) key =
     (if key = ''chat'' then Obj [(''conversation'', Undefined)]
      else if key = ''dialog'' then Obj [(''bot'', Undefined), (''update'', Undefined)]
      else if key = ''pages'' then Obj [(''appButton'', Undefined), (''tabs'', Undefined),
          (''config'', Undefined), (''backStack'', Undefined), (''fullTrust'', Undefined)]
      else if key = ''teams'' then Obj [(''fullTrust'', Obj [(''joinedTeams'', Undefined)])]
      else Undefined)"
  by (simp add: getProp_def runtime_def)

lemma leaf_object: "list_all (\<lambda>(k, v). v = Undefined) obj \<Longrightarrow> \<not> supportsPath obj p"
proof (induction obj p rule: supportsPath.induct)
  case (1 obj)
  then show ?case by simp
next
  case (2 obj key)
  then show ?case
    by (auto simp: getProp_def list_all_iff split: option.splits dest: map_of_SomeD)
next
  case (3 obj key k ks)
  then show ?case
    by (auto simp: getProp_def list_all_iff split: option.splits capability.splits dest!: map_of_SomeD)
qed

lemma runtime_paths:
  "supportsPath (supports runtime) p \<longleftrightarrow>
   p \<in> set [ [''chat''], [''dialog''], [''pages''], [''teams''], [''teams'', ''fullTrust'']]"
proof (cases p)
  case Nil
  then show ?thesis by simp
next
  case (Cons key keys)
  note p = Cons
  show ?thesis
  proof (cases keys)
    case Nil
    with p show ?thesis by (simp add: runtime_top)
  next
    case (Cons k ks)
    have teams: "supportsPath [(''fullTrust'', Obj [(''joinedTeams'', Undefined)])] (k # ks)
        \<longleftrightarrow> k = ''fullTrust'' \<and> ks = []"
    proof (cases ks)
      case Nil
      then show ?thesis by (simp add: getProp_def)
    next
      case (Cons k' ks')
      have "\<not> supportsPath [(''joinedTeams'', Undefined)] (k' # ks')"
        by (rule leaf_object) simp
      with Cons show ?thesis by (simp add: getProp_def)
    qed
    have "\<not> supportsPath [(''conversation'', Undefined)] (k # ks)"
      "\<not> supportsPath [(''bot'', Undefined), (''update'', Undefined)] (k # ks)"
      "\<not> supportsPath [(''appButton'', Undefined), (''tabs'', Undefined),
          (''config'', Undefined), (''backStack'', Undefined), (''fullTrust'', Undefined)] (k # ks)"
      by (rule leaf_object, simp)+
    with p Cons teams show ?thesis by (simp add: runtime_top)
  qed
qed

text \<open>
  C9, as the claim states it, fails: in the initial registry the key \<open>dialog\<close> holds an
  object, so the dialog capability counts as supported.
\<close>

theorem runtime_initial_dialog_supported:
  "getProp (supports runtime) ''dialog'' = Obj [(''bot'', Undefined), (''update'', Undefined)] \<and>
   supportsPath (supports runtime) [''dialog''] \<and>
   dialog_isSupported runtime = Inr True"
  by (simp add: runtime_top dialog_isSupported_def isSupported_def readProp_def)

text \<open>
  C9, amended. The initial registry has \<open>apiVersion\<close> 1 and no \<open>isLegacyTeams\<close> flag;
  its leaf keys hold \<open>undefined\<close>, its parent keys \<open>chat\<close>, \<open>dialog\<close>, \<open>pages\<close>, \<open>teams\<close>
  and \<open>teams.fullTrust\<close> hold objects. So exactly these five paths are supported in
  the initial state, and the is-supported query answers accordingly on every path.
\<close>

theorem runtime_initial_supported_paths:
  "apiVersion runtime = 1 \<and> isLegacyTeams runtime = None \<and>
   supportsPath (supports runtime) p =
     (p \<in> set [ [''chat''], [''dialog''], [''pages''], [''teams''], [''teams'', ''fullTrust'']]) \<and>
   isSupported runtime p =
     Inr (p \<in> set [ [''chat''], [''dialog''], [''pages''], [''teams''], [''teams'', ''fullTrust'']])"
proof -
  have "apiVersion runtime = 1" and "isLegacyTeams runtime = None"
    by (simp_all add: runtime_def)
  then show ?thesis
    using runtime_paths [of p] isSupported_supportsPath [of runtime p] by simp
qed

section \<open>Capability calls\<close>

text \<open>
  C7. Whatever the entry point and its arguments, a call made before initialization
  fails with the fixed lifecycle error.
\<close>

theorem invoke_before_initialization:
  "lifecycleState st = Uninitialized \<Longrightarrow>
   invoke e as st = Inl (LifecycleError ''The library has not yet been initialized'')"
  by (simp add: invoke_def ensureInitialized_def)

theorem invoke_before_initialization_witness:
  "lifecycleState uninitializedSdk = Uninitialized \<and>
   invoke dialog_open [JObject [(''url'', JStr ''someUrl'')]] uninitializedSdk =
     Inl (LifecycleError ''The library has not yet been initialized'') \<and>
   invoke dialog_update_resize [JObject []] uninitializedSdk =
     Inl (LifecycleError ''The library has not yet been initialized'') \<and>
   invoke dialog_submit [] uninitializedSdk =
     Inl (LifecycleError ''The library has not yet been initialized'') \<and>
   invoke dialog_bot_open [JObject [(''url'', JStr ''someUrl'')]] uninitializedSdk =
     Inl (LifecycleError ''The library has not yet been initialized'') \<and>
   invoke location_getCurrentLocation [] uninitializedSdk =
     Inl (LifecycleError ''The library has not yet been initialized'') \<and>
   invoke (location_hasPermission (JStr ''geolocation'')) [] uninitializedSdk =
     Inl (LifecycleError ''The library has not yet been initialized'')"
proof -
  have h: "lifecycleState uninitializedSdk = Uninitialized"
    by (simp add: uninitializedSdk_def)
  from h invoke_before_initialization [OF h, of dialog_open]
    invoke_before_initialization [OF h, of dialog_update_resize]
    invoke_before_initialization [OF h, of dialog_submit]
    invoke_before_initialization [OF h, of dialog_bot_open]
    invoke_before_initialization [OF h, of location_getCurrentLocation]
    invoke_before_initialization [OF h, of "location_hasPermission (JStr ''geolocation'')"]
  show ?thesis by blast
qed

text \<open>
  Some of the tests render the observed context with \<open>JSON.stringify\<close>, others put it
  between double quotes as it is. On a context without quote, backslash and control
  characters, as the members of \<open>FrameContexts\<close> are, the two agree.
\<close>

lemma escapeChar_plain: "plainChar c \<Longrightarrow> escapeChar c = [c]"
  by (auto simp: plainChar_def escapeChar_def)

lemma stringifyString_plain:
  "list_all plainChar s \<Longrightarrow> stringifyString s = [CHR 0x22] @ s @ [CHR 0x22]"
proof -
  assume "list_all plainChar s"
  then have "concat (map escapeChar s) = s"
    by (induction s) (simp_all add: escapeChar_plain)
  then show ?thesis by (simp add: stringifyString_def)
qed

text \<open>
  C8. After initialization, a call of a context-restricted entry point from a frame
  context outside its allow-list fails with the context error, whose message is the
  fixed text around the serialized allow-list, in its order, and the serialized
  observed context.
\<close>

theorem invoke_wrong_context:
  assumes "lifecycleState st = Initialized"
    and "expectedFrameContexts e = Some allowed"
    and "frameContext st \<notin> set allowed"
  shows "invoke e as st =
     Inl (ContextError
       (''This call is only allowed in following contexts: '' @ stringifyStrings allowed @
        ''. Current context: '' @ stringifyString (frameContext st) @ ''.''))"
  using assms by (simp add: invoke_def ensureInitialized_def contextErrorMessage_def)

lemma dialog_open_message:
  "''This call is only allowed in following contexts: '' @
     stringifyStrings [FrameContexts_content, FrameContexts_sidePanel, FrameContexts_meetingStage] @
     ''. Current context: '' @ stringifyString ''task'' @ ''.'' =
   (''This call is only allowed in following contexts: ['' @ [CHR 0x22] @ ''content'' @ [CHR 0x22] @
       '','' @ [CHR 0x22] @ ''sidePanel'' @ [CHR 0x22] @ '','' @ [CHR 0x22] @ ''meetingStage'' @ [CHR 0x22] @
       '']. Current context: '' @ [CHR 0x22] @ ''task'' @ [CHR 0x22] @ ''.'')"
  by code_simp

theorem invoke_wrong_context_witness:
  "lifecycleState (initializeWithContext FrameContexts_task uninitializedSdk) = Initialized \<and>
   expectedFrameContexts dialog_open =
     Some [FrameContexts_content, FrameContexts_sidePanel, FrameContexts_meetingStage] \<and>
   frameContext (initializeWithContext FrameContexts_task uninitializedSdk)
     \<notin> set [FrameContexts_content, FrameContexts_sidePanel, FrameContexts_meetingStage] \<and>
   invoke dialog_open [] (initializeWithContext FrameContexts_task uninitializedSdk) =
     Inl (ContextError (''This call is only allowed in following contexts: ['' @ [CHR 0x22] @ ''content'' @ [CHR 0x22] @
       '','' @ [CHR 0x22] @ ''sidePanel'' @ [CHR 0x22] @ '','' @ [CHR 0x22] @ ''meetingStage'' @ [CHR 0x22] @
       '']. Current context: '' @ [CHR 0x22] @ ''task'' @ [CHR 0x22] @ ''.''))"
proof -
  let ?st = "initializeWithContext FrameContexts_task uninitializedSdk"
  let ?allowed = "[FrameContexts_content, FrameContexts_sidePanel, FrameContexts_meetingStage]"
  have h1: "lifecycleState ?st = Initialized"
    by (simp add: initializeWithContext_def)
  have h2: "expectedFrameContexts dialog_open = Some ?allowed"
    by (simp add: dialog_open_def)
  have fc: "frameContext ?st = ''task''"
    by (simp add: initializeWithContext_def FrameContexts_task_def)
  have h3: "frameContext ?st \<notin> set ?allowed"
    unfolding fc
    by (simp add: FrameContexts_content_def FrameContexts_sidePanel_def FrameContexts_meetingStage_def)
  from invoke_wrong_context [OF h1 h2 h3, of "[]"] h1 h2 h3
  show ?thesis unfolding fc dialog_open_message by blast
qed

subsection \<open>Correlation of responses\<close>

lemma invoke_InrD:
  assumes "invoke e as st = Inr (st', i)"
  shows "i = nextMessageId st"
    and "st' = st\<lparr>nextMessageId := nextMessageId st + 1,
                   pendingRequests := pendingRequests st @ [nextMessageId st],
                   outbox := outbox st @
                     [\<lparr>msgId = Some (nextMessageId st), func = fst (request e as),
                       args = snd (request e as)\<rparr>]\<rparr>"
  using assms
  by (auto simp: invoke_def sendAndAwait_def Let_def split: sum.splits if_splits)

lemma unsettled_above:
  "list_all (\<lambda>entry. fst entry < (n::nat)) xs \<Longrightarrow> n \<le> i \<Longrightarrow> map_of xs i = None"
proof (induction xs)
  case Nil
  then show ?case by simp
next
  case (Cons x xs)
  then have "fst x < n" by simp
  with Cons.prems(2) have "fst x \<noteq> i" by arith
  with Cons show ?case by (cases x) simp
qed

lemma wellFormed_fresh:
  assumes "wellFormed st"
  shows "nextMessageId st \<notin> set (pendingRequests st)"
    and "promiseState st (nextMessageId st) = None"
  using assms unsettled_above [of "nextMessageId st" "settled st" "nextMessageId st"]
  by (auto simp: wellFormed_def promiseState_def list_all_iff)

lemma invoke_awaiting:
  assumes "wellFormed st" and "invoke e as st = Inr (st', i)"
  shows "awaiting i st'"
proof -
  note d = invoke_InrD [OF assms(2)]
  from assms(1) have "list_all (\<lambda>j. j < Suc (nextMessageId st)) (pendingRequests st)"
    and "list_all (\<lambda>entry. fst entry < Suc (nextMessageId st)) (settled st)"
    by (auto simp: wellFormed_def list_all_iff)
  with wellFormed_fresh(2) [OF assms(1)] d show ?thesis
    by (simp add: awaiting_def wellFormed_def promiseState_def)
qed

lemma invoke_keeps_awaiting:
  assumes "awaiting i st" and "invoke e as st = Inr (st', j)"
  shows "awaiting i st'" and "j \<noteq> i"
proof -
  note d = invoke_InrD [OF assms(2)]
  from assms(1) have "list_all (\<lambda>j. j < Suc (nextMessageId st)) (pendingRequests st)"
    and "list_all (\<lambda>entry. fst entry < Suc (nextMessageId st)) (settled st)"
    by (auto simp: awaiting_def wellFormed_def list_all_iff)
  with assms(1) d show "awaiting i st'"
    by (simp add: awaiting_def wellFormed_def promiseState_def)
  from assms(1) d show "j \<noteq> i" by (simp add: awaiting_def)
qed

lemma handleResponse_keeps_awaiting:
  assumes "awaiting i st" and "j \<noteq> i"
  shows "awaiting i (handleResponse st (j, as))"
  using assms
  by (auto simp: awaiting_def wellFormed_def promiseState_def handleResponse_def list_all_iff)

lemma sdkStep_keeps_awaiting:
  assumes "awaiting i st" and "responseId ev \<noteq> Some i"
  shows "awaiting i (sdkStep st ev)"
proof (cases ev)
  case (Call e as)
  show ?thesis
  proof (cases "invoke e as st")
    case (Inl err)
    with Call assms(1) show ?thesis by simp
  next
    case (Inr sent)
    obtain st' j where "sent = (st', j)" by (cases sent)
    with Inr Call invoke_keeps_awaiting(1) [OF assms(1), of e as st' j] show ?thesis by simp
  qed
next
  case (Response j as)
  with assms show ?thesis by (simp add: handleResponse_keeps_awaiting)
qed

lemma runEvents_keeps_awaiting:
  "awaiting i st \<Longrightarrow> list_all (\<lambda>ev. responseId ev \<noteq> Some i) evs \<Longrightarrow>
   awaiting i (runEvents st evs)"
  unfolding runEvents_def
  by (induction evs arbitrary: st) (simp_all add: sdkStep_keeps_awaiting)

lemma handleResponse_settles:
  assumes "i \<in> set (pendingRequests s)"
  shows "promiseState (handleResponse s (i, as)) i = Some (settle as)"
    and "i \<notin> set (pendingRequests (handleResponse s (i, as)))"
  using assms by (simp_all add: handleResponse_def promiseState_def)

lemma wellFormed_invoke:
  "wellFormed st \<Longrightarrow> invoke e as st = Inr (st', i) \<Longrightarrow> wellFormed st'"
  using invoke_awaiting by (simp add: awaiting_def)

lemma wellFormed_handleResponse: "wellFormed st \<Longrightarrow> wellFormed (handleResponse st response)"
  by (auto simp: wellFormed_def handleResponse_def list_all_iff)

lemma wellFormed_uninitializedSdk: "wellFormed uninitializedSdk"
  by (simp add: wellFormed_def uninitializedSdk_def)

lemma wellFormed_initializeWithContext:
  "wellFormed st \<Longrightarrow> wellFormed (initializeWithContext context st)"
  by (simp add: wellFormed_def initializeWithContext_def)

lemma wellFormed_setRuntimeConfig: "wellFormed st \<Longrightarrow> wellFormed (setRuntimeConfig rt st)"
  by (simp add: wellFormed_def setRuntimeConfig_def)

lemma wellFormed_sdkStep: "wellFormed st \<Longrightarrow> wellFormed (sdkStep st ev)"
proof (cases ev)
  case (Call e as)
  assume wf: "wellFormed st"
  show ?thesis
  proof (cases "invoke e as st")
    case (Inl err)
    with Call wf show ?thesis by simp
  next
    case (Inr sent)
    obtain st' j where "sent = (st', j)" by (cases sent)
    with Inr Call wellFormed_invoke [OF wf, of e as st' j] show ?thesis by simp
  qed
next
  case (Response j as)
  assume "wellFormed st"
  with Response show ?thesis by (simp add: wellFormed_handleResponse)
qed

lemma wellFormed_runEvents: "wellFormed st \<Longrightarrow> wellFormed (runEvents st evs)"
  unfolding runEvents_def
  by (induction evs arbitrary: st) (simp_all add: wellFormed_sdkStep)

text \<open>
  C6. A call that is sent gets an identifier \<open>i\<close> that no request or promise of the
  state has, and its outbound message bears \<open>i\<close>. Whatever calls and responses to other
  identifiers happen afterwards, the promise stays pending, no later call gets \<open>i\<close>, and
  a response bearing another identifier leaves it pending. A response bearing \<open>i\<close>
  settles it: rejected with the first argument itself when that is present and neither
  \<open>undefined\<close> nor \<open>null\<close>, resolved with the second argument when the first is
  \<open>undefined\<close>; the request is then no longer pending.
\<close>

theorem response_settles_promise:
  assumes "wellFormed st"
    and "invoke e as st = Inr (st', i)"
    and "list_all (\<lambda>ev. responseId ev \<noteq> Some i) evs"
  shows "last (outbox st') =
           \<lparr>msgId = Some i, func = fst (request e as), args = snd (request e as)\<rparr> \<and>
         i \<notin> set (pendingRequests st) \<and> promiseState st i = None \<and>
         i \<in> set (pendingRequests (runEvents st' evs)) \<and>
         promiseState (runEvents st' evs) i = None \<and>
         (invoke e2 as2 (runEvents st' evs) = Inr (st2, j2) \<longrightarrow> j2 \<noteq> i) \<and>
         (j \<noteq> i \<longrightarrow> promiseState (handleResponse (runEvents st' evs) (j, as')) i = None) \<and>
         (err \<noteq> JUndefined \<and> err \<noteq> JNull \<longrightarrow>
            promiseState (handleResponse (runEvents st' evs) (i, err # rest)) i =
              Some (Rejected err)) \<and>
         promiseState (handleResponse (runEvents st' evs) (i, JUndefined # v # others)) i =
           Some (Resolved v) \<and>
         i \<notin> set (pendingRequests (handleResponse (runEvents st' evs) (i, as'')))"
proof -
  let ?s = "runEvents st' evs"
  note d = invoke_InrD [OF assms(2)]
  have out: "last (outbox st') =
      \<lparr>msgId = Some i, func = fst (request e as), args = snd (request e as)\<rparr>"
    using d by simp
  have fresh: "i \<notin> set (pendingRequests st)" "promiseState st i = None"
    using wellFormed_fresh [OF assms(1)] d(1) by simp_all
  have aw: "awaiting i ?s"
    using invoke_awaiting [OF assms(1,2)] assms(3) by (rule runEvents_keeps_awaiting)
  then have pend: "i \<in> set (pendingRequests ?s)" "promiseState ?s i = None"
    by (simp_all add: awaiting_def)
  have later: "invoke e2 as2 ?s = Inr (st2, j2) \<longrightarrow> j2 \<noteq> i"
    using invoke_keeps_awaiting(2) [OF aw] by blast
  have other: "j \<noteq> i \<longrightarrow> promiseState (handleResponse ?s (j, as')) i = None"
    using handleResponse_keeps_awaiting [OF aw] by (simp add: awaiting_def)
  have rej: "err \<noteq> JUndefined \<and> err \<noteq> JNull \<longrightarrow>
      promiseState (handleResponse ?s (i, err # rest)) i = Some (Rejected err)"
    using handleResponse_settles(1) [OF pend(1)] by (simp add: settle_def)
  have res: "promiseState (handleResponse ?s (i, JUndefined # v # others)) i = Some (Resolved v)"
    using handleResponse_settles(1) [OF pend(1)] by (simp add: settle_def)
  have once: "i \<notin> set (pendingRequests (handleResponse ?s (i, as'')))"
    using handleResponse_settles(2) [OF pend(1)] .
  from out fresh pend later other rej res once show ?thesis by blast
qed

lemma invoke_locationSdk:
  "invoke location_getCurrentLocation [] locationSdk = Inr (sentLocationSdk, 0)"
  by (simp add: invoke_def ensureInitialized_def locationSdk_def setRuntimeConfig_def
      initializeWithContext_def uninitializedSdk_def location_getCurrentLocation_def
      FrameContexts_content_def FrameContexts_task_def getProp_def sendAndAwait_def
      sentLocationSdk_def)

lemma eventsBetween_run:
  "pendingRequests (runEvents sentLocationSdk eventsBetween) = [0, 1] \<and>
   settled (runEvents sentLocationSdk eventsBetween) = [(2, Resolved (JBool True))] \<and>
   map_sum id snd (invoke location_getCurrentLocation [] (runEvents sentLocationSdk eventsBetween))
     = Inr 3"
  by code_simp

theorem response_settles_promise_witness:
  "wellFormed locationSdk \<and>
   invoke location_getCurrentLocation [] locationSdk = Inr (sentLocationSdk, 0) \<and>
   list_all (\<lambda>ev. responseId ev \<noteq> Some 0) eventsBetween \<and>
   pendingRequests (runEvents sentLocationSdk eventsBetween) = [0, 1] \<and>
   promiseState (runEvents sentLocationSdk eventsBetween) 0 = None \<and>
   map_sum id snd (invoke location_getCurrentLocation [] (runEvents sentLocationSdk eventsBetween))
     = Inr 3 \<and>
   promiseState
     (handleResponse (runEvents sentLocationSdk eventsBetween)
        (1, [JObject [(''errorCode'', JNum 1000)]])) 0 = None \<and>
   promiseState
     (handleResponse (runEvents sentLocationSdk eventsBetween)
        (0, [JObject [(''errorCode'', JNum 1000)]])) 0 =
     Some (Rejected (JObject [(''errorCode'', JNum 1000)])) \<and>
   promiseState
     (handleResponse (runEvents sentLocationSdk eventsBetween)
        (0, [JUndefined, JObject [(''latitude'', JNum 17), (''longitude'', JNum 17)]])) 0 =
     Some (Resolved (JObject [(''latitude'', JNum 17), (''longitude'', JNum 17)]))"
proof -
  have h1: "wellFormed locationSdk"
    unfolding locationSdk_def
    by (intro wellFormed_setRuntimeConfig wellFormed_initializeWithContext
        wellFormed_uninitializedSdk)
  have h3: "list_all (\<lambda>ev. responseId ev \<noteq> Some 0) eventsBetween"
    by (simp add: eventsBetween_def)
  have d: "JObject [(''errorCode'', JNum 1000)] \<noteq> JUndefined"
    "JObject [(''errorCode'', JNum 1000)] \<noteq> JNull" "(1::nat) \<noteq> 0"
    by simp_all
  from d h1 h3 invoke_locationSdk eventsBetween_run
    response_settles_promise [OF h1 invoke_locationSdk h3,
      where j = 1 and as' = "[JObject [(''errorCode'', JNum 1000)]]"
        and err = "JObject [(''errorCode'', JNum 1000)]" and rest = "[]"
        and v = "JObject [(''latitude'', JNum 17), (''longitude'', JNum 17)]" and others = "[]"]
  show ?thesis by blast
qed

section \<open>Publication freezes the registry\<close>

lemma allFrozen_deepFreeze: "allFrozen (deepFreeze v)"
  by (induction v rule: deepFreeze.induct) (auto simp: list_all_iff)

lemma withoutFlags_deepFreeze: "withoutFlags (deepFreeze v) = withoutFlags v"
  by (induction v rule: deepFreeze.induct) auto

lemma assignPath_allFrozen: "allFrozen t \<Longrightarrow> assignPath t path key v = t"
proof (induction t path key v rule: assignPath.induct)
  case (1 isFrozen props key v)
  then show ?case by simp
next
  case (2 isFrozen props p ps key v)
  have "map (\<lambda>(k, w). if k = p then (k, assignPath w ps key v) else (k, w)) props = props"
  proof (rule map_idI)
    fix kw assume kw: "kw \<in> set props"
    obtain k w where [simp]: "kw = (k, w)" by (cases kw)
    from kw "2.prems" have "allFrozen w" by (auto simp: list_all_iff)
    with "2.IH" kw have "k = p \<Longrightarrow> assignPath w ps key v = w" by simp
    then show "(case kw of (k, w) \<Rightarrow> if k = p then (k, assignPath w ps key v) else (k, w)) = kw"
      by simp
  qed
  then show ?case by simp
qed simp_all

text \<open>
  C5. After \<open>applyRuntimeConfig\<close> the module variable holds the deeply frozen
  configuration: the same tree, every object of it frozen, and an assignment to any
  field of any object of it, at any depth, leaves the registry as it was.
\<close>

theorem applyRuntimeConfig_deeply_frozen:
  "runtimeVar (applyRuntimeConfig runtimeConfig m) = deepFreeze runtimeConfig \<and>
   withoutFlags (runtimeVar (applyRuntimeConfig runtimeConfig m)) = withoutFlags runtimeConfig \<and>
   allFrozen (runtimeVar (applyRuntimeConfig runtimeConfig m)) \<and>
   assignPath (runtimeVar (applyRuntimeConfig runtimeConfig m)) path key v =
     runtimeVar (applyRuntimeConfig runtimeConfig m)"
  by (simp add: applyRuntimeConfig_def allFrozen_deepFreeze withoutFlags_deepFreeze
        assignPath_allFrozen)

lemma unfrozen_write:
  "assignPath (runtimeObject teamsRuntimeConfig) [''supports'', ''dialog''] ''update'' LUndefined
   \<noteq> runtimeObject teamsRuntimeConfig"
  by code_simp

theorem applyRuntimeConfig_deeply_frozen_witness:
  "assignPath (runtimeObject teamsRuntimeConfig) [''supports'', ''dialog''] ''update'' LUndefined
     \<noteq> runtimeObject teamsRuntimeConfig \<and>
   assignPath
     (runtimeVar (applyRuntimeConfig (runtimeObject teamsRuntimeConfig)
        \<lparr>runtimeVar = runtimeObject runtime\<rparr>))
     [''supports'', ''dialog''] ''update'' LUndefined =
   runtimeVar (applyRuntimeConfig (runtimeObject teamsRuntimeConfig)
        \<lparr>runtimeVar = runtimeObject runtime\<rparr>)"
  using unfrozen_write
    applyRuntimeConfig_deeply_frozen [of "runtimeObject teamsRuntimeConfig"
      "\<lparr>runtimeVar = runtimeObject runtime\<rparr>" "[''supports'', ''dialog'']" "''update''" LUndefined]
  by blast


section \<open>The synthesis leaves the globals alone\<close>

lemma mergeCapabilityReqsStore_extends:
  "\<exists>ext. fst (mergeCapabilityReqsStore H st r) = fst st @ ext"
  by (simp add: mergeCapabilityReqsStore_def alloc_def)

lemma foldl_mergeCapabilityReqsStore_extends:
  "\<exists>ext. fst (foldl (mergeCapabilityReqsStore H) st rs) = fst st @ ext"
proof (induction rs arbitrary: st)
  case Nil
  then show ?case by simp
next
  case (Cons r rs)
  obtain e1 where e1: "fst (mergeCapabilityReqsStore H st r) = fst st @ e1"
    using mergeCapabilityReqsStore_extends by blast
  obtain e2 where "fst (foldl (mergeCapabilityReqsStore H) (mergeCapabilityReqsStore H st r) rs) =
      fst (mergeCapabilityReqsStore H st r) @ e2"
    using Cons.IH by blast
  with e1 show ?case by simp
qed

lemma mergeVersionStore_extends:
  "\<exists>ext. fst (mergeVersionStore H v st entry) = fst st @ ext"
  by (simp add: mergeVersionStore_def foldl_mergeCapabilityReqsStore_extends)

lemma foldl_mergeVersionStore_extends:
  "\<exists>ext. fst (foldl (mergeVersionStore H v) st table) = fst st @ ext"
proof (induction table arbitrary: st)
  case Nil
  then show ?case by simp
next
  case (Cons entry table)
  obtain e1 where e1: "fst (mergeVersionStore H v st entry) = fst st @ e1"
    using mergeVersionStore_extends by blast
  obtain e2 where "fst (foldl (mergeVersionStore H v) (mergeVersionStore H v st entry) table) =
      fst (mergeVersionStore H v st entry) @ e2"
    using Cons.IH by blast
  with e1 show ?case by simp
qed

lemma generateBackCompatRuntimeConfigStore_extends:
  "\<exists>ext. fst (generateBackCompatRuntimeConfigStore g H v h) = h @ ext"
proof -
  let ?st0 = "alloc h (objectSpread []
                  (objectAt h (fieldOf h (teamsRuntimeConfigRef g) ''supports'')))"
  obtain e where "fst (foldl (mergeVersionStore H v) ?st0 (versionConstantsRefs g)) = fst ?st0 @ e"
    using foldl_mergeVersionStore_extends by blast
  then show ?thesis
    by (simp add: generateBackCompatRuntimeConfigStore_def Let_def alloc_def)
qed

lemma read_extends:
  "readCapability n h v = Some c \<Longrightarrow> readCapability n (h @ ext) v = Some c"
  "readProps n h ps = Some cs \<Longrightarrow> readProps n (h @ ext) ps = Some cs"
proof (induction n h v and n h ps arbitrary: c and cs rule: readCapability_readProps.induct)
  case (3 n h a)
  then show ?case by (auto simp: nth_append split: if_splits)
next
  case (7 n h key v rest)
  then show ?case by (auto split: option.splits)
qed simp_all

lemma objectAt_extends: "objectAt h v \<noteq> [] \<Longrightarrow> objectAt (h @ ext) v = objectAt h v"
  by (auto simp: objectAt_def nth_append split: storeValue.splits if_splits)

lemma readRuntime_extends:
  assumes "readRuntime n h v = Some rt"
  shows "readRuntime n (h @ ext) v = Some rt"
proof -
  from assms have "objectAt h v \<noteq> []"
    by (auto simp: readRuntime_def fieldOf_def split: storeValue.splits)
  then have "fieldOf (h @ ext) v key = fieldOf h v key" for key
    by (simp add: fieldOf_def objectAt_extends)
  with assms show ?thesis
    by (auto simp: readRuntime_def read_extends
        split: storeValue.splits option.splits capability.splits)
qed

lemma readReqs_extends: "readReqs n h r = Some x \<Longrightarrow> readReqs n (h @ ext) r = Some x"
  by (auto simp: readReqs_def read_extends split: option.splits capability.splits)

lemma teamsRuntimeConfig_loaded:
  "readRuntime 4 (fst loadModule) (teamsRuntimeConfigRef (snd loadModule)) = Some teamsRuntimeConfig"
  by code_simp

lemma versionConstants_loaded:
  "readTable 4 (fst loadModule) (versionConstantsRefs (snd loadModule)) =
   tableRead versionConstants"
  by code_simp

lemma readProps_assignProp:
  "readProps n h ps = Some cs \<Longrightarrow> readCapability n h v = Some c \<Longrightarrow>
   readProps n h (assignProp ps (key, v)) = Some (assignProp cs (key, c))"
proof (induction ps arbitrary: cs)
  case Nil
  then show ?case by simp
next
  case (Cons p ps)
  obtain k w where p: "p = (k, w)" by (cases p)
  with Cons.prems obtain c' cs' where
    r: "readCapability n h w = Some c'" "readProps n h ps = Some cs'" "cs = (k, c') # cs'"
    by (auto split: option.splits)
  with Cons.IH Cons.prems(2) p show ?case by simp
qed

lemma readProps_foldl_assignProp:
  "readProps n h ps = Some cs \<Longrightarrow> readProps n h qs = Some ds \<Longrightarrow>
   readProps n h (foldl assignProp ps qs) = Some (foldl assignProp cs ds)"
proof (induction qs arbitrary: ps cs ds)
  case Nil
  then show ?case by simp
next
  case (Cons q qs)
  obtain k w where q: "q = (k, w)" by (cases q)
  with Cons.prems obtain c' ds' where
    r: "readCapability n h w = Some c'" "readProps n h qs = Some ds'" "ds = (k, c') # ds'"
    by (auto split: option.splits)
  from Cons.prems(1) r(1) have "readProps n h (assignProp ps (k, w)) = Some (assignProp cs (k, c'))"
    by (rule readProps_assignProp)
  with Cons.IH r q show ?case by simp
qed

lemma readProps_objectSpread:
  "readProps n h a = Some a' \<Longrightarrow> readProps n h b = Some b' \<Longrightarrow>
   readProps n h (objectSpread a b) = Some (objectSpread a' b')"
  unfolding objectSpread_def
  by (intro readProps_foldl_assignProp) simp_all

lemma readCapability_ObjD:
  assumes "readCapability (Suc n) h x = Some (Obj tree)"
  shows "readProps n h (objectAt h x) = Some tree"
  using assms by (cases x) (auto simp: objectAt_def split: if_splits)

lemma read_alloc:
  assumes "readProps n h obj = Some tree"
  shows "readCapability (Suc n) (fst (alloc h obj)) (snd (alloc h obj)) = Some (Obj tree)"
  using read_extends(2) [OF assms, of "[obj]"] by (simp add: alloc_def)

lemma read_alloc_spread:
  assumes "readCapability (Suc n) h x = Some (Obj a')"
    and "readCapability (Suc n) h y = Some (Obj b')"
  shows "readCapability (Suc n)
           (fst (alloc h (objectSpread (objectAt h x) (objectAt h y))))
           (snd (alloc h (objectSpread (objectAt h x) (objectAt h y)))) =
         Some (Obj (objectSpread a' b'))"
  by (intro read_alloc readProps_objectSpread readCapability_ObjD assms)

lemma readReqs_SomeD:
  assumes "readReqs n h r = Some p"
  shows "readCapability n h (capabilityRef r) = Some (Obj (capability p))"
    and "hostClientTypesOf r = hostClientTypes p"
  using assms by (auto simp: readReqs_def split: option.splits capability.splits)

lemma map_readReqs_extends:
  "map (readReqs n h) rs = map Some reqs \<Longrightarrow> map (readReqs n (h @ ext)) rs = map Some reqs"
proof (induction rs arbitrary: reqs)
  case Nil
  then show ?case by simp
next
  case (Cons r rs)
  then obtain p ps where "reqs = p # ps" "readReqs n h r = Some p"
    "map (readReqs n h) rs = map Some ps"
    by (cases reqs) auto
  with Cons.IH show ?case by (simp add: readReqs_extends)
qed

lemma readTable_extends:
  "readTable n h table = tableRead pure \<Longrightarrow> readTable n (h @ ext) table = tableRead pure"
proof (induction table arbitrary: pure)
  case Nil
  then show ?case by (simp add: readTable_def tableRead_def)
next
  case (Cons entry table)
  then obtain e es where "pure = e # es" "fst entry = fst e"
    "map (readReqs n h) (snd entry) = map Some (snd e)"
    "readTable n h table = tableRead es"
    by (cases pure) (auto simp: readTable_def tableRead_def)
  with Cons.IH [of es] show ?case
    by (simp add: readTable_def tableRead_def map_readReqs_extends)
qed

lemma mergeCapabilityReqsStore_refines:
  assumes "readReqs (Suc n) (fst st) r = Some p"
    and "readCapability (Suc n) (fst st) (snd st) = Some (Obj acc)"
  shows "readCapability (Suc n) (fst (mergeCapabilityReqsStore H st r))
           (snd (mergeCapabilityReqsStore H st r)) =
         Some (Obj (mergeCapabilityReqs H acc p))"
  using assms readReqs_SomeD [OF assms(1)]
  by (simp add: mergeCapabilityReqsStore_def mergeCapabilityReqs_def read_alloc_spread)

lemma foldl_mergeCapabilityReqsStore_refines:
  assumes "map (readReqs (Suc n) (fst st)) rs = map Some reqs"
    and "readCapability (Suc n) (fst st) (snd st) = Some (Obj acc)"
  shows "readCapability (Suc n) (fst (foldl (mergeCapabilityReqsStore H) st rs))
           (snd (foldl (mergeCapabilityReqsStore H) st rs)) =
         Some (Obj (foldl (mergeCapabilityReqs H) acc reqs))"
  using assms
proof (induction rs arbitrary: reqs st acc)
  case Nil
  then show ?case by simp
next
  case (Cons r rs)
  then obtain p ps where ps: "reqs = p # ps" "readReqs (Suc n) (fst st) r = Some p"
    "map (readReqs (Suc n) (fst st)) rs = map Some ps"
    by (cases reqs) auto
  let ?st = "mergeCapabilityReqsStore H st r"
  obtain ext where "fst ?st = fst st @ ext"
    using mergeCapabilityReqsStore_extends by blast
  with ps(3) have "map (readReqs (Suc n) (fst ?st)) rs = map Some ps"
    by (simp add: map_readReqs_extends)
  moreover have "readCapability (Suc n) (fst ?st) (snd ?st) = Some (Obj (mergeCapabilityReqs H acc p))"
    using ps(2) Cons.prems(2) by (rule mergeCapabilityReqsStore_refines)
  ultimately show ?case using Cons.IH ps(1) by simp
qed

lemma foldl_mergeVersionStore_refines:
  assumes "readTable (Suc n) (fst st) table = tableRead pure"
    and "readCapability (Suc n) (fst st) (snd st) = Some (Obj acc)"
  shows "readCapability (Suc n) (fst (foldl (mergeVersionStore H v) st table))
           (snd (foldl (mergeVersionStore H v) st table)) =
         Some (Obj (foldl (mergeVersion H v) acc pure))"
  using assms
proof (induction table arbitrary: pure st acc)
  case Nil
  then show ?case by (simp add: readTable_def tableRead_def)
next
  case (Cons entry table)
  then obtain e es where es: "pure = e # es" "fst entry = fst e"
    "map (readReqs (Suc n) (fst st)) (snd entry) = map Some (snd e)"
    "readTable (Suc n) (fst st) table = tableRead es"
    by (cases pure) (auto simp: readTable_def tableRead_def)
  let ?st = "mergeVersionStore H v st entry"
  obtain ext where "fst ?st = fst st @ ext"
    using mergeVersionStore_extends by blast
  with es(4) have "readTable (Suc n) (fst ?st) table = tableRead es"
    by (simp add: readTable_extends)
  moreover have "readCapability (Suc n) (fst ?st) (snd ?st) = Some (Obj (mergeVersion H v acc e))"
    using es(2) foldl_mergeCapabilityReqsStore_refines [OF es(3) Cons.prems(2)] Cons.prems(2)
    by (simp add: mergeVersionStore_def mergeVersion_def)
  ultimately show ?case using Cons.IH es(1) by simp
qed

lemma readRuntime_SomeD:
  assumes "readRuntime n h v = Some rt"
  shows "readCapability n h (fieldOf h v ''supports'') = Some (Obj (supports rt))"
  using assms
  by (auto simp: readRuntime_def split: storeValue.splits option.splits capability.splits)

lemma generateBackCompatRuntimeConfigStore_refines:
  assumes "readRuntime (Suc n) h (teamsRuntimeConfigRef g) = Some teamsRuntimeConfig"
    and "readTable (Suc n) h (versionConstantsRefs g) = tableRead versionConstants"
  shows "readRuntime (Suc n) (fst (generateBackCompatRuntimeConfigStore g H v h))
           (snd (generateBackCompatRuntimeConfigStore g H v h)) =
         Some (generateBackCompatRuntimeConfig H v)"
proof -
  let ?src = "objectAt h (fieldOf h (teamsRuntimeConfigRef g) ''supports'')"
  let ?st0 = "alloc h (objectSpread [] ?src)"
  let ?st1 = "foldl (mergeVersionStore H v) ?st0 (versionConstantsRefs g)"
  let ?pure = "foldl (mergeVersion H v) (objectSpread [] (supports teamsRuntimeConfig)) versionConstants"
  have "readProps n h ?src = Some (supports teamsRuntimeConfig)"
    by (rule readCapability_ObjD [OF readRuntime_SomeD [OF assms(1)]])
  then have "readProps n h (objectSpread [] ?src) = Some (objectSpread [] (supports teamsRuntimeConfig))"
    by (intro readProps_objectSpread) simp_all
  then have r0: "readCapability (Suc n) (fst ?st0) (snd ?st0) =
      Some (Obj (objectSpread [] (supports teamsRuntimeConfig)))"
    by (rule read_alloc)
  have "fst ?st0 = h @ [objectSpread [] ?src]" by (simp add: alloc_def)
  with assms(2) have "readTable (Suc n) (fst ?st0) (versionConstantsRefs g) = tableRead versionConstants"
    by (simp add: readTable_extends)
  from foldl_mergeVersionStore_refines [OF this r0]
  have r1: "readCapability (Suc n) (fst ?st1) (snd ?st1) = Some (Obj ?pure)" .
  let ?root = "[(''apiVersion'', VNum 1), (''isLegacyTeams'', VBool True), (''supports'', snd ?st1)]"
  have "readCapability (Suc n) (fst ?st1 @ [?root]) (snd ?st1) = Some (Obj ?pure)"
    using r1 by (rule read_extends(1))
  then show ?thesis
    by (simp add: generateBackCompatRuntimeConfigStore_def generateBackCompatRuntimeConfig_def
        Let_def alloc_def readRuntime_def fieldOf_def objectAt_def)
qed

text \<open>
  C10. The synthesis writes to no object that existed before the call: on any store
  and any globals, every object of the store is afterwards what it was. For the
  module's own store this means that the baseline \<open>teamsRuntimeConfig\<close> and the fragments
  of \<open>versionConstants\<close> still read as they are written in the source, while the new
  registry reads as the one computed above.
\<close>

theorem generateBackCompatRuntimeConfigStore_frame:
  "take (length h) (fst (generateBackCompatRuntimeConfigStore g H v h)) = h \<and>
   readRuntime 4
     (fst (generateBackCompatRuntimeConfigStore (snd loadModule) H v (fst loadModule)))
     (teamsRuntimeConfigRef (snd loadModule)) = Some teamsRuntimeConfig \<and>
   readTable 4
     (fst (generateBackCompatRuntimeConfigStore (snd loadModule) H v (fst loadModule)))
     (versionConstantsRefs (snd loadModule)) = tableRead versionConstants \<and>
   readRuntime 4
     (fst (generateBackCompatRuntimeConfigStore (snd loadModule) H v (fst loadModule)))
     (snd (generateBackCompatRuntimeConfigStore (snd loadModule) H v (fst loadModule))) =
       Some (generateBackCompatRuntimeConfig H v)"
proof -
  obtain ext where "fst (generateBackCompatRuntimeConfigStore g H v h) = h @ ext"
    using generateBackCompatRuntimeConfigStore_extends by blast
  then have frame: "take (length h) (fst (generateBackCompatRuntimeConfigStore g H v h)) = h"
    by simp
  obtain ext' where ext':
    "fst (generateBackCompatRuntimeConfigStore (snd loadModule) H v (fst loadModule)) =
       fst loadModule @ ext'"
    using generateBackCompatRuntimeConfigStore_extends by blast
  have four: "(4::nat) = Suc 3" by simp
  show ?thesis
    using frame
      readRuntime_extends [OF teamsRuntimeConfig_loaded, of ext']
      readTable_extends [OF versionConstants_loaded, of ext']
      generateBackCompatRuntimeConfigStore_refines
        [OF teamsRuntimeConfig_loaded [unfolded four] versionConstants_loaded [unfolded four], of H v]
    unfolding ext' [symmetric] four
    by simp
qed


end
